theory Spec2Isabelle
  imports Complex_Main
begin

section \<open>Errors and Python sequence primitives\<close>

text \<open>
  The runtime types that matter to the type checks, and the exceptions the sources can
  raise. \<open>TypeError_allowed ts\<close> is the \<^verbatim>\<open>TypeError("only {0} types are accepted")\<close>
  of \<^verbatim>\<open>_TypeHintConversion.is_allowed\<close>, carrying the tuple of allowed types it
  prints; \<open>AttributeError\<close> is what Python raises when a method or attribute of
  \<^verbatim>\<open>None\<close> is used.
\<close>

datatype py_type =
  T_NoneType | T_bool | T_int | T_float | T_str | T_Path | T_Sound | T_other

datatype error =
    AttributeError
  | IndexError
  | ValueError
  | OverflowError
  | TypeError_allowed "py_type list"

text \<open>Python's \<^verbatim>\<open>xs[i]\<close>: a negative index counts from the end, anything else out
  of range raises \<^verbatim>\<open>IndexError\<close>.\<close>

definition py_index :: "'a list \<Rightarrow> int \<Rightarrow> error + 'a" where
  "py_index xs i =
     (if 0 \<le> i \<and> i < int (length xs) then Inr (xs ! nat i)
      else if i < 0 \<and> - int (length xs) \<le> i then Inr (xs ! nat (int (length xs) + i))
      else Inl IndexError)"

text \<open>Python's \<^verbatim>\<open>xs[k:]\<close>: a negative start counts from the end and is clamped at
  the front; a start beyond the end gives the empty list.\<close>

definition py_slice_from :: "'a list \<Rightarrow> int \<Rightarrow> 'a list" where
  "py_slice_from xs k =
     (if k < 0 then drop (nat (int (length xs) + k)) xs else drop (nat k) xs)"

section \<open>\<^verbatim>\<open>_utils.py\<close>\<close>

subsection \<open>String formatting used by \<^verbatim>\<open>datetime.timedelta.__str__\<close>\<close>

definition digit_char :: "nat \<Rightarrow> char" where
  "digit_char d =
     (if d = 0 then CHR ''0'' else if d = 1 then CHR ''1'' else if d = 2 then CHR ''2''
      else if d = 3 then CHR ''3'' else if d = 4 then CHR ''4'' else if d = 5 then CHR ''5''
      else if d = 6 then CHR ''6'' else if d = 7 then CHR ''7'' else if d = 8 then CHR ''8''
      else CHR ''9'')"

fun str_nat :: "nat \<Rightarrow> string" where
  "str_nat n = (if n < 10 then [digit_char n] else str_nat (n div 10) @ [digit_char (n mod 10)])"

declare str_nat.simps [simp del]

text \<open>\<^verbatim>\<open>"%d" % i\<close>\<close>

definition fmt_d :: "int \<Rightarrow> string" where
  "fmt_d i = (if i < 0 then CHR ''-'' # str_nat (nat (- i)) else str_nat (nat i))"

text \<open>\<^verbatim>\<open>"%02d" % i\<close>: zero padding to width two, after the sign.\<close>

definition fmt_02d :: "int \<Rightarrow> string" where
  "fmt_02d i =
     (if i < 0 then CHR ''-'' # str_nat (nat (- i))
      else replicate (2 - length (str_nat (nat i))) CHR ''0'' @ str_nat (nat i))"

text \<open>
  \<^verbatim>\<open>datetime.timedelta(seconds=s)\<close> for an integer \<open>s\<close> normalises to days and
  seconds of the day (microseconds are zero) and raises \<^verbatim>\<open>OverflowError\<close> beyond
  999999999 days.
\<close>

record timedelta =
  days :: int
  seconds_of_day :: int

definition timedelta_of_seconds :: "int \<Rightarrow> error + timedelta" where
  "timedelta_of_seconds s =
     (let d = s div 86400
      in if \<bar>d\<bar> > 999999999 then Inl OverflowError
         else Inr \<lparr>days = d, seconds_of_day = s mod 86400\<rparr>)"

text \<open>
  \<^verbatim>\<open>
  def __str__(self):
      mm, ss = divmod(self._seconds, 60)
      hh, mm = divmod(mm, 60)
      s = "%d:%02d:%02d" % (hh, mm, ss)
      if self._days:
          def plural(n): return n, abs(n) != 1 and "s" or ""
          s = ("%d day%s, " % plural(self._days)) + s
      return s
  \<close>
\<close>

definition str_timedelta :: "timedelta \<Rightarrow> string" where
  "str_timedelta td =
     (let mm = seconds_of_day td div 60; ss = seconds_of_day td mod 60;
          hh = mm div 60; mm' = mm mod 60;
          s = fmt_d hh @ '':'' @ fmt_02d mm' @ '':'' @ fmt_02d ss
      in if days td \<noteq> 0
         then fmt_d (days td) @ '' day'' @ (if \<bar>days td\<bar> \<noteq> 1 then ''s'' else '''') @ '', '' @ s
         else s)"

text \<open>Python's \<^verbatim>\<open>str.split(sep)\<close> for a one-character separator.\<close>

fun split_on :: "char \<Rightarrow> string \<Rightarrow> string list" where
  "split_on c [] = [[]]"
| "split_on c (x # xs) =
     (if x = c then [] # split_on c xs
      else (case split_on c xs of
              [] \<Rightarrow> [[x]]
            | w # ws \<Rightarrow> (x # w) # ws))"

subsection \<open>\<^verbatim>\<open>humanize_duration\<close>\<close>

definition humanize_duration :: "int \<Rightarrow> bool \<Rightarrow> error + string" where
  "humanize_duration seconds remove_leading_zero =
     (case timedelta_of_seconds seconds of
        Inl e \<Rightarrow> Inl e
      | Inr td \<Rightarrow>
          (let human_readable_duration = str_timedelta td
           in if remove_leading_zero \<and> seconds < 3600
              then (case split_on CHR '':'' human_readable_duration of
                      [_, string_minutes, string_seconds] \<Rightarrow>
                        (if seconds < 10 * 60
                         then (case py_index string_minutes 1 of
                                 Inl e \<Rightarrow> Inl e
                               | Inr parsed_minutes \<Rightarrow>
                                   Inr ([parsed_minutes] @ '':'' @ string_seconds))
                         else Inr (string_minutes @ '':'' @ string_seconds))
                    | _ \<Rightarrow> Inl ValueError)
              else Inr human_readable_duration))"

subsection \<open>\<^verbatim>\<open>normalize_index\<close>\<close>

definition normalize_index :: "'a list \<Rightarrow> int \<Rightarrow> error + int" where
  "normalize_index sequence index =
     (let sequence_length = int (length sequence)
      in if index < 0
         then (if \<bar>index\<bar> > sequence_length then Inl IndexError
               else Inr (sequence_length + index))
         else (if index > sequence_length - 1 then Inl IndexError
               else Inr index))"

subsection \<open>Reading a duration back\<close>

text \<open>
  The reader the round-trip property speaks of: the text is cut at the colons; three
  fields are hours, minutes and seconds, two fields are minutes and seconds; every
  field is a non-empty run of decimal digits. Anything else does not parse.
\<close>

definition digit_val :: "char \<Rightarrow> nat option" where
  "digit_val =
     map_of [(CHR ''0'', 0), (CHR ''1'', 1), (CHR ''2'', 2), (CHR ''3'', 3), (CHR ''4'', 4),
             (CHR ''5'', 5), (CHR ''6'', 6), (CHR ''7'', 7), (CHR ''8'', 8), (CHR ''9'', 9)]"

fun parse_digits :: "nat \<Rightarrow> string \<Rightarrow> nat option" where
  "parse_digits acc [] = Some acc"
| "parse_digits acc (c # cs) =
     (case digit_val c of
        None \<Rightarrow> None
      | Some d \<Rightarrow> parse_digits (10 * acc + d) cs)"

definition parse_nat :: "string \<Rightarrow> nat option" where
  "parse_nat s = (if s = [] then None else parse_digits 0 s)"

definition parse_hms :: "string \<Rightarrow> nat option" where
  "parse_hms s =
     (case split_on CHR '':'' s of
        [h, m, sec] \<Rightarrow>
          (case (parse_nat h, parse_nat m, parse_nat sec) of
             (Some hv, Some mv, Some sv) \<Rightarrow> Some (hv * 3600 + mv * 60 + sv)
           | _ \<Rightarrow> None)
      | [m, sec] \<Rightarrow>
          (case (parse_nat m, parse_nat sec) of
             (Some mv, Some sv) \<Rightarrow> Some (mv * 60 + sv)
           | _ \<Rightarrow> None)
      | _ \<Rightarrow> None)"

section \<open>\<^verbatim>\<open>_conversions.py\<close>: values and allowed types\<close>

text \<open>
  A Python value as far as the player can tell values apart: \<open>PyPath s\<close> is a
  \<^verbatim>\<open>pathlib.Path\<close> whose \<^verbatim>\<open>str()\<close> is \<open>s\<close>, \<open>PySound h\<close> is the
  \<^verbatim>\<open>kivy.core.audio.Sound\<close> object at address \<open>h\<close>, \<open>PyOther s\<close> is a hashable,
  truthy object of any other type whose \<^verbatim>\<open>str()\<close> is \<open>s\<close> (two such objects are
  equal when their \<^verbatim>\<open>str()\<close> is).
\<close>

type_synonym handle = nat

datatype py_value =
    PyNone
  | PyBool bool
  | PyInt int
  | PyFloat real
  | PyStr string
  | PyPath string
  | PySound handle
  | PyOther string

fun type_of :: "py_value \<Rightarrow> py_type" where
  "type_of PyNone = T_NoneType"
| "type_of (PyBool _) = T_bool"
| "type_of (PyInt _) = T_int"
| "type_of (PyFloat _) = T_float"
| "type_of (PyStr _) = T_str"
| "type_of (PyPath _) = T_Path"
| "type_of (PySound _) = T_Sound"
| "type_of (PyOther _) = T_other"

text \<open>Python's truth value of an object, as \<^verbatim>\<open>if found_alias:\<close> tests it.\<close>

fun truthy :: "py_value \<Rightarrow> bool" where
  "truthy PyNone = False"
| "truthy (PyBool b) = b"
| "truthy (PyInt i) = (i \<noteq> 0)"
| "truthy (PyFloat r) = (r \<noteq> 0)"
| "truthy (PyStr s) = (s \<noteq> [])"
| "truthy (PyPath _) = True"
| "truthy (PySound _) = True"
| "truthy (PyOther _) = True"

definition NumberConversion_allowed_types :: "py_type list" where
  "NumberConversion_allowed_types = [T_int, T_float]"

definition PathTypeConversion_allowed_types :: "py_type list" where
  "PathTypeConversion_allowed_types = [T_str, T_Path]"

definition SoundTypeConversion_allowed_types :: "py_type list" where
  "SoundTypeConversion_allowed_types = [T_str, T_Path, T_Sound]"

text \<open>Python's \<^verbatim>\<open>isinstance(obj, types)\<close> for a tuple of types: the type of the
  object is one of them or a subclass of one of them, and among the types here the only
  subclass is \<^verbatim>\<open>bool\<close>, of \<^verbatim>\<open>int\<close>.\<close>

definition isinstance :: "py_value \<Rightarrow> py_type list \<Rightarrow> bool" where
  "isinstance obj types =
     (type_of obj \<in> set types \<or> (type_of obj = T_bool \<and> T_int \<in> set types))"

text \<open>
  \<^verbatim>\<open>
  def is_allowed(cls, obj):
      if not isinstance(obj, cls._allowed_types):
          raise TypeError("only {0} types are accepted".format(cls._allowed_types))
  \<close>
\<close>

definition is_allowed :: "py_type list \<Rightarrow> py_value \<Rightarrow> error + unit" where
  "is_allowed allowed_types obj =
     (if \<not> isinstance obj allowed_types then Inl (TypeError_allowed allowed_types)
      else Inr ())"

text \<open>
  The key under which a dictionary files a value. Python looks keys up by \<^verbatim>\<open>hash\<close>
  and \<^verbatim>\<open>==\<close>, under which \<^verbatim>\<open>True\<close>, \<^verbatim>\<open>1\<close> and \<^verbatim>\<open>1.0\<close> are one key (and
  \<^verbatim>\<open>False\<close>, \<^verbatim>\<open>0\<close> and \<^verbatim>\<open>0.0\<close>), as is every float with the integer of the
  same value; a string and a path are never equal, and sound objects are equal only to
  themselves.
\<close>

definition dict_key :: "py_value \<Rightarrow> py_value" where
  "dict_key k =
     (case k of
        PyBool b \<Rightarrow> PyInt (if b then 1 else 0)
      | PyFloat r \<Rightarrow> (if r = of_int \<lfloor>r\<rfloor> then PyInt \<lfloor>r\<rfloor> else PyFloat r)
      | _ \<Rightarrow> k)"

section \<open>The environment of the player\<close>

text \<open>
  Modelled from the spec: the playable handle (\<^verbatim>\<open>kivy.core.audio.Sound\<close>), a library
  object outside the repository. It has a source, a volume, a position and a play/stop
  state, it can be released, and it notifies the callbacks bound to its \<^verbatim>\<open>on_play\<close>
  and \<^verbatim>\<open>on_stop\<close> events when \<^verbatim>\<open>play()\<close> and \<^verbatim>\<open>stop()\<close> are called on it (the
  end of a track is a \<^verbatim>\<open>stop()\<close> the handle calls on itself). \<open>on_play_bound\<close> and
  \<open>on_stop_bound\<close> count the callbacks that \<^verbatim>\<open>_configure_sound_obj\<close> has bound, one
  pair each time the object is loaded.
\<close>

record sound =
  source :: string
  sound_volume :: real
  sound_pos :: real
  sound_state :: string
  unloaded :: bool
  on_play_bound :: nat
  on_stop_bound :: nat

text \<open>Modelled from the spec: the repeating tick of the position estimator, the object
  that \<^verbatim>\<open>Clock.schedule_interval\<close> returns; it is scheduled until cancelled, and
  cancelling it again changes nothing.\<close>

datatype clock_event = Scheduled | Cancelled

text \<open>
  The attributes of an \<^verbatim>\<open>AudioPlayer\<close> instance, under the names of the source
  without the leading underscore, followed by what the instance shares with its
  surroundings: the store of \<^verbatim>\<open>Sound\<close> objects (\<open>sounds\<close>, addressed by handles,
  \<open>next_handle\<close> being the next free address), the class-level alias dictionary
  (a map from the keys as \<open>dict_key\<close> files them), which paths \<^verbatim>\<open>SoundLoader.load\<close>
  can open, and \<^verbatim>\<open>str()\<close> of a float.
\<close>

record player =
  external_stop_call :: bool
  queue_progress_index :: int
  queue :: "handle list"
  volume :: real
  loop :: bool
  estimate_position :: bool
  interval :: real
  pos_estimate :: real
  state :: string
  clock_event :: "clock_event option"
  current_sound_obj :: "handle option"
  sounds :: "handle \<Rightarrow> sound"
  next_handle :: handle
  aliases :: "py_value \<Rightarrow> py_value option"
  loadable :: "string \<Rightarrow> bool"
  float_str :: "real \<Rightarrow> string"

text \<open>
  A call either returns (\<open>Done\<close>) or raises (\<open>Raised\<close>); both carry the player as the
  call leaves it, since Python mutates the object in place and an exception does not
  undo the assignments made before it. A call that does not return at all is \<open>None\<close>
  of type \<open>outcome option\<close>.
\<close>

datatype outcome = Done player | Raised error player

fun final_player :: "outcome \<Rightarrow> player" where
  "final_player (Done p) = p"
| "final_player (Raised e p) = p"

definition and_then :: "outcome option \<Rightarrow> (player \<Rightarrow> outcome option) \<Rightarrow> outcome option" where
  "and_then r f =
     (case r of
        None \<Rightarrow> None
      | Some (Raised e p) \<Rightarrow> Some (Raised e p)
      | Some (Done p) \<Rightarrow> f p)"

definition update_sound :: "handle \<Rightarrow> (sound \<Rightarrow> sound) \<Rightarrow> player \<Rightarrow> player" where
  "update_sound h f p = p\<lparr>sounds := (sounds p)(h := f (sounds p h))\<rparr>"

text \<open>Dispatching an event to \<open>n\<close> bound callbacks runs them one after the other; an
  exception in one of them ends the dispatch.\<close>

fun dispatch :: "nat \<Rightarrow> (player \<Rightarrow> outcome option) \<Rightarrow> player \<Rightarrow> outcome option" where
  "dispatch 0 callback p = Some (Done p)"
| "dispatch (Suc n) callback p = and_then (callback p) (dispatch n callback)"

section \<open>\<^verbatim>\<open>_conversions.py\<close>: \<^verbatim>\<open>SoundTypeConversion\<close>\<close>

text \<open>\<^verbatim>\<open>str(obj)\<close>\<close>

definition py_str :: "player \<Rightarrow> py_value \<Rightarrow> string" where
  "py_str p v =
     (case v of
        PyNone \<Rightarrow> ''None''
      | PyBool b \<Rightarrow> (if b then ''True'' else ''False'')
      | PyInt i \<Rightarrow> fmt_d i
      | PyFloat r \<Rightarrow> float_str p r
      | PyStr s \<Rightarrow> s
      | PyPath s \<Rightarrow> s
      | PySound h \<Rightarrow> source (sounds p h)
      | PyOther s \<Rightarrow> s)"

text \<open>
  \<^verbatim>\<open>
  def as_str(cls, sound):
      if isinstance(sound, Sound):
          return sound.source
      return str(sound)
  \<close>
\<close>

definition as_str :: "player \<Rightarrow> py_value \<Rightarrow> string" where
  "as_str p sound_v =
     (case sound_v of
        PySound h \<Rightarrow> source (sounds p h)
      | _ \<Rightarrow> py_str p sound_v)"

text \<open>
  Modelled from the spec: the load primitive \<^verbatim>\<open>SoundLoader.load(filename)\<close>, which
  returns a new handle for a source it can open and no handle (\<^verbatim>\<open>None\<close>) otherwise.
\<close>

definition new_sound :: "string \<Rightarrow> sound" where
  "new_sound filename =
     \<lparr>source = filename, sound_volume = 1, sound_pos = 0, sound_state = ''stop'',
      unloaded = False, on_play_bound = 0, on_stop_bound = 0\<rparr>"

definition SoundLoader_load :: "string \<Rightarrow> player \<Rightarrow> handle option \<times> player" where
  "SoundLoader_load filename p =
     (if loadable p filename
      then (Some (next_handle p),
            p\<lparr>sounds := (sounds p)(next_handle p := new_sound filename),
              next_handle := Suc (next_handle p)\<rparr>)
      else (None, p))"

text \<open>
  \<^verbatim>\<open>
  def as_sound_obj(cls, sound):
      if isinstance(sound, Sound):
          return sound
      return SoundLoader.load(cls.as_str(sound))
  \<close>
\<close>

definition as_sound_obj :: "py_value \<Rightarrow> player \<Rightarrow> handle option \<times> player" where
  "as_sound_obj sound_v p =
     (case sound_v of
        PySound h \<Rightarrow> (Some h, p)
      | _ \<Rightarrow> SoundLoader_load (as_str p sound_v) p)"

section \<open>\<^verbatim>\<open>audioplayer.py\<close>: the position estimator\<close>

definition update_pos_estimate :: "real \<Rightarrow> player \<Rightarrow> player" where
  "update_pos_estimate position p = p\<lparr>pos_estimate := position\<rparr>"

text \<open>\<^verbatim>\<open>self._clock_event.cancel()\<close>: before any clock was started the attribute is
  \<^verbatim>\<open>None\<close> and the call raises.\<close>

definition cancel_clock :: "player \<Rightarrow> outcome" where
  "cancel_clock p =
     (case clock_event p of
        None \<Rightarrow> Raised AttributeError p
      | Some _ \<Rightarrow> Done (p\<lparr>clock_event := Some Cancelled\<rparr>))"

definition start_clock :: "player \<Rightarrow> player" where
  "start_clock p = p\<lparr>clock_event := Some Scheduled\<rparr>"

text \<open>One tick of the scheduled clock event.\<close>

definition clock_tick :: "player \<Rightarrow> player" where
  "clock_tick p = update_pos_estimate (pos_estimate p + interval p) p"

definition initialize_estimation :: "player \<Rightarrow> player" where
  "initialize_estimation p = (if estimate_position p then start_clock p else p)"

section \<open>\<^verbatim>\<open>audioplayer.py\<close>: jumping and playing\<close>

text \<open>Modelled from the spec: \<^verbatim>\<open>play()\<close> on the handle. The state changes and
  \<^verbatim>\<open>on_play\<close> is dispatched to the bound \<^verbatim>\<open>_initialize_estimation\<close> callbacks.\<close>

definition sound_play :: "handle \<Rightarrow> player \<Rightarrow> outcome option" where
  "sound_play h p =
     dispatch (on_play_bound (sounds p h)) (\<lambda>q. Some (Done (initialize_estimation q)))
       (update_sound h (\<lambda>s. s\<lparr>sound_state := ''play''\<rparr>) p)"

text \<open>\<^verbatim>\<open>self._current_sound_obj = self._queue[self._queue_progress_index]\<close>\<close>

definition set_current_sound_obj :: "player \<Rightarrow> outcome" where
  "set_current_sound_obj p =
     (case py_index (queue p) (queue_progress_index p) of
        Inl e \<Rightarrow> Raised e p
      | Inr h \<Rightarrow> Done (p\<lparr>current_sound_obj := Some h\<rparr>))"

text \<open>The last two statements of \<^verbatim>\<open>play\<close>:
  \<^verbatim>\<open>self._current_sound_obj.play(); self._state = "play"\<close>.\<close>

definition play_current :: "player \<Rightarrow> outcome option" where
  "play_current p =
     (case current_sound_obj p of
        None \<Rightarrow> Some (Raised AttributeError p)
      | Some h \<Rightarrow> and_then (sound_play h p) (\<lambda>q. Some (Done (q\<lparr>state := ''play''\<rparr>))))"

text \<open>
  \<^verbatim>\<open>play\<close> and \<^verbatim>\<open>_jump_to_index\<close> call each other:
  \<^verbatim>\<open>
  def _jump_to_index(self, index):
      try:
          self._queue_progress_index = index
          self._set_current_sound_obj()
      except IndexError:
          self._queue_progress_index = -1
          self._current_sound_obj = None
          if self._loop:
              self.play()

  def play(self):
      if not self._current_sound_obj:
          self._jump_to_index(0)
      self._current_sound_obj.play()
      self._state = "play"
  \<close>
  Nothing bounds the recursion, so the pair is one partial function over the two
  kinds of call; \<open>None\<close> is a call that never returns.
\<close>

datatype call = Play | JumpToIndex int

partial_function (option) run :: "call \<Rightarrow> player \<Rightarrow> outcome option" where
  "run c p =
     (case c of
        JumpToIndex index \<Rightarrow>
          (case set_current_sound_obj (p\<lparr>queue_progress_index := index\<rparr>) of
             Done q \<Rightarrow> Some (Done q)
           | Raised e q \<Rightarrow>
               (if e = IndexError
                then (if loop q
                      then run Play (q\<lparr>queue_progress_index := - 1, current_sound_obj := None\<rparr>)
                      else Some (Done (q\<lparr>queue_progress_index := - 1, current_sound_obj := None\<rparr>)))
                else Some (Raised e q)))
      | Play \<Rightarrow>
          Option.bind
            (if current_sound_obj p = None then run (JumpToIndex 0) p else Some (Done p))
            (\<lambda>r. case r of
                   Raised e q \<Rightarrow> Some (Raised e q)
                 | Done q \<Rightarrow> play_current q))"

definition play :: "player \<Rightarrow> outcome option" where
  "play p = run Play p"

definition jump_to_index :: "int \<Rightarrow> player \<Rightarrow> outcome option" where
  "jump_to_index index p = run (JumpToIndex index) p"

section \<open>\<^verbatim>\<open>audioplayer.py\<close>: stopping and skipping\<close>

text \<open>\<^verbatim>\<open>self._current_sound_obj.seek(position)\<close>; the handle takes the position and
  sends no notification.\<close>

definition seek :: "real \<Rightarrow> player \<Rightarrow> outcome" where
  "seek position p =
     (case current_sound_obj p of
        None \<Rightarrow> Raised AttributeError p
      | Some h \<Rightarrow> Done (update_sound h (\<lambda>s. s\<lparr>sound_pos := position\<rparr>) p))"

text \<open>
  \<^verbatim>\<open>skip_to_next\<close> after its first statement, the optional \<^verbatim>\<open>self.stop()\<close>:
  \<^verbatim>\<open>
      self._jump_to_index(self._queue_progress_index + 1)
      if restart_audio_position:
          self.seek(0)
      if play_immediately:
          self.play()
  \<close>
  \<^verbatim>\<open>stop\<close> reaches \<^verbatim>\<open>skip_to_next\<close> again through the handle's \<^verbatim>\<open>on_stop\<close>
  callback, which passes \<^verbatim>\<open>stop_current_playback=False\<close>; that call is this part.
\<close>

definition skip_to_next_unstopped :: "bool \<Rightarrow> bool \<Rightarrow> player \<Rightarrow> outcome option" where
  "skip_to_next_unstopped play_immediately restart_audio_position p =
     and_then (jump_to_index (queue_progress_index p + 1) p) (\<lambda>p1.
     and_then (if restart_audio_position then Some (seek 0 p1) else Some (Done p1)) (\<lambda>p2.
     if play_immediately then play p2 else Some (Done p2)))"

text \<open>
  \<^verbatim>\<open>
  def _cancel_estimation(self):
      if self._estimate_position:
          self._cancel_clock()
      if not self._external_stop_call:
          self._update_pos_estimate(0)
          self.skip_to_next(stop_current_playback=False)
  \<close>
\<close>

definition cancel_estimation :: "player \<Rightarrow> outcome option" where
  "cancel_estimation p =
     and_then (if estimate_position p then Some (cancel_clock p) else Some (Done p)) (\<lambda>p1.
     if \<not> external_stop_call p1
     then skip_to_next_unstopped True True (update_pos_estimate 0 p1)
     else Some (Done p1))"

text \<open>Modelled from the spec: \<^verbatim>\<open>stop()\<close> on the handle. The state changes and
  \<^verbatim>\<open>on_stop\<close> is dispatched to the bound \<^verbatim>\<open>_cancel_estimation\<close> callbacks. The
  natural end of a track is this call made by the handle itself.\<close>

definition sound_stop :: "handle \<Rightarrow> player \<Rightarrow> outcome option" where
  "sound_stop h p =
     dispatch (on_stop_bound (sounds p h)) cancel_estimation
       (update_sound h (\<lambda>s. s\<lparr>sound_state := ''stop''\<rparr>) p)"

text \<open>
  \<^verbatim>\<open>
  def stop(self):
      self._external_stop_call = True
      self._current_sound_obj.stop()
      self._state = "stop"
      self._external_stop_call = False
  \<close>
\<close>

definition stop :: "player \<Rightarrow> outcome option" where
  "stop p =
     (let p1 = p\<lparr>external_stop_call := True\<rparr>
      in case current_sound_obj p1 of
           None \<Rightarrow> Some (Raised AttributeError p1)
         | Some h \<Rightarrow>
             and_then (sound_stop h p1) (\<lambda>p2.
             Some (Done (p2\<lparr>state := ''stop'', external_stop_call := False\<rparr>))))"

definition skip_to_next :: "bool \<Rightarrow> bool \<Rightarrow> bool \<Rightarrow> player \<Rightarrow> outcome option" where
  "skip_to_next play_immediately stop_current_playback restart_audio_position p =
     and_then (if stop_current_playback then stop p else Some (Done p))
       (skip_to_next_unstopped play_immediately restart_audio_position)"

text \<open>
  \<^verbatim>\<open>
  def skip_to_previous(self, play_immediately=True, stop_current_playback=True,
                       restart_audio_position=True):
      if stop_current_playback:
          self.stop()
      self._jump_to_index(normalize_index(self._queue, self._queue_progress_index - 1))
      if restart_audio_position:
          self.seek(0)
      if play_immediately:
          self.play()
  \<close>
\<close>

definition skip_to_previous :: "bool \<Rightarrow> bool \<Rightarrow> bool \<Rightarrow> player \<Rightarrow> outcome option" where
  "skip_to_previous play_immediately stop_current_playback restart_audio_position p =
     and_then (if stop_current_playback then stop p else Some (Done p)) (\<lambda>p0.
     case normalize_index (queue p0) (queue_progress_index p0 - 1) of
       Inl e \<Rightarrow> Some (Raised e p0)
     | Inr index \<Rightarrow>
         and_then (jump_to_index index p0) (\<lambda>p1.
         and_then (if restart_audio_position then Some (seek 0 p1) else Some (Done p1)) (\<lambda>p2.
         if play_immediately then play p2 else Some (Done p2))))"

section \<open>\<^verbatim>\<open>audioplayer.py\<close>: the queue\<close>

text \<open>\<^verbatim>\<open>self._queue.clear()\<close>\<close>

definition clear_queue :: "player \<Rightarrow> player" where
  "clear_queue p = p\<lparr>queue := []\<rparr>"

text \<open>\<^verbatim>\<open>cls._aliases.get(alias, default_value)\<close> with the default \<^verbatim>\<open>None\<close>.\<close>

definition get_alias :: "player \<Rightarrow> py_value \<Rightarrow> py_value" where
  "get_alias p alias = (case aliases p (dict_key alias) of None \<Rightarrow> PyNone | Some v \<Rightarrow> v)"

text \<open>
  \<^verbatim>\<open>
  def register(cls, alias, value):
      SoundTypeConversion.is_allowed(value)
      cls._aliases[alias] = value
  \<close>
\<close>

definition register :: "py_value \<Rightarrow> py_value \<Rightarrow> player \<Rightarrow> outcome" where
  "register alias v p =
     (case is_allowed SoundTypeConversion_allowed_types v of
        Inl e \<Rightarrow> Raised e p
      | Inr _ \<Rightarrow> Done (p\<lparr>aliases := (aliases p)(dict_key alias \<mapsto> v)\<rparr>))"

text \<open>
  \<^verbatim>\<open>
  def _configure_sound_obj(self, sound_obj):
      sound_obj.volume = self._volume
      sound_obj.bind(on_play=lambda sound: self._initialize_estimation())
      sound_obj.bind(on_stop=lambda sound: self._cancel_estimation())
  \<close>
  Setting an attribute of \<^verbatim>\<open>None\<close>, which is what \<^verbatim>\<open>as_sound_obj\<close> returns for a
  source that cannot be opened, raises.
\<close>

definition configure_sound_obj :: "handle option \<Rightarrow> player \<Rightarrow> outcome" where
  "configure_sound_obj sound_obj p =
     (case sound_obj of
        None \<Rightarrow> Raised AttributeError p
      | Some h \<Rightarrow>
          Done (update_sound h
                  (\<lambda>s. s\<lparr>sound_volume := volume p,
                         on_play_bound := Suc (on_play_bound s),
                         on_stop_bound := Suc (on_stop_bound s)\<rparr>) p))"

text \<open>
  The body of the loop of \<^verbatim>\<open>load\<close>, for one argument:
  \<^verbatim>\<open>
      if not ignore_aliases:
          found_alias = self.get_alias(audio_file)
          if found_alias:
              audio_file = found_alias
      sound_obj = SoundTypeConversion.as_sound_obj(audio_file)
      self._configure_sound_obj(sound_obj)
      self._queue.append(sound_obj)
  \<close>
\<close>

definition resolve_alias :: "bool \<Rightarrow> player \<Rightarrow> py_value \<Rightarrow> py_value" where
  "resolve_alias ignore_aliases p audio_file =
     (if \<not> ignore_aliases \<and> truthy (get_alias p audio_file)
      then get_alias p audio_file else audio_file)"

definition load_one :: "bool \<Rightarrow> py_value \<Rightarrow> player \<Rightarrow> outcome" where
  "load_one ignore_aliases audio_file p =
     (case as_sound_obj (resolve_alias ignore_aliases p audio_file) p of
        (None, p1) \<Rightarrow> configure_sound_obj None p1
      | (Some h, p1) \<Rightarrow>
          (case configure_sound_obj (Some h) p1 of
             Raised e p2 \<Rightarrow> Raised e p2
           | Done p2 \<Rightarrow> Done (p2\<lparr>queue := queue p2 @ [h]\<rparr>)))"

fun load_args :: "bool \<Rightarrow> py_value list \<Rightarrow> player \<Rightarrow> outcome" where
  "load_args ignore_aliases [] p = Done p"
| "load_args ignore_aliases (audio_file # args) p =
     (case load_one ignore_aliases audio_file p of
        Raised e p1 \<Rightarrow> Raised e p1
      | Done p1 \<Rightarrow> load_args ignore_aliases args p1)"

text \<open>
  \<^verbatim>\<open>
  def load(self, *args, clear_previous_queue=False, ignore_aliases=False):
      if clear_previous_queue:
          self.clear_queue()
      for audio_file in args:
          ...
      if self._queue:
          self._state = "queue loaded"
  \<close>
\<close>

definition load :: "py_value list \<Rightarrow> bool \<Rightarrow> bool \<Rightarrow> player \<Rightarrow> outcome" where
  "load args clear_previous_queue ignore_aliases p =
     (case load_args ignore_aliases args (if clear_previous_queue then clear_queue p else p) of
        Raised e p1 \<Rightarrow> Raised e p1
      | Done p1 \<Rightarrow> Done (if queue p1 \<noteq> [] then p1\<lparr>state := ''queue loaded''\<rparr> else p1))"

text \<open>
  \<^verbatim>\<open>
  def unload(self):
      if self._current_sound_obj:
          self._current_sound_obj.unload()
      self._queue.clear()
      self._state = "queue empty"
  \<close>
  Releasing a handle (\<^verbatim>\<open>unload()\<close> on it) marks it and sends no notification.
\<close>

definition unload :: "player \<Rightarrow> player" where
  "unload p =
     (let p1 = (case current_sound_obj p of
                  None \<Rightarrow> p
                | Some h \<Rightarrow> update_sound h (\<lambda>s. s\<lparr>unloaded := True\<rparr>) p)
      in p1\<lparr>queue := [], state := ''queue empty''\<rparr>)"

text \<open>
  \<^verbatim>\<open>
  def __init__(self, queue=(), volume=1, loop=False, estimate_position=True, interval=1):
      self._external_stop_call = False
      self._queue_progress_index = -1
      self._queue = []
      self._volume = volume
      self.load(*queue)
      self._loop = loop
      self._estimate_position = estimate_position
      self._interval = interval
      self._pos_estimate = 0
      self._state = "queue empty"
      self._clock_event = None
      self._current_sound_obj = None
  \<close>
  The constructor starts from the surroundings \<open>env\<close>, of which it reads only the
  store, the aliases and the loader.
\<close>

definition AudioPlayer ::
  "py_value list \<Rightarrow> real \<Rightarrow> bool \<Rightarrow> bool \<Rightarrow> real \<Rightarrow> player \<Rightarrow> outcome" where
  "AudioPlayer queue_arg volume_arg loop_arg estimate_position_arg interval_arg env =
     (case load queue_arg False False
             (env\<lparr>external_stop_call := False, queue_progress_index := - 1,
                  queue := [], volume := volume_arg\<rparr>) of
        Raised e p \<Rightarrow> Raised e p
      | Done p \<Rightarrow>
          Done (p\<lparr>loop := loop_arg, estimate_position := estimate_position_arg,
                  interval := interval_arg, pos_estimate := 0, state := ''queue empty'',
                  clock_event := None, current_sound_obj := None\<rparr>))"

text \<open>Surroundings with no sound object yet and no alias, in which \<^verbatim>\<open>SoundLoader\<close>
  opens exactly the sources accepted by \<open>can_open\<close>.\<close>

definition empty_env :: "(string \<Rightarrow> bool) \<Rightarrow> player" where
  "empty_env can_open =
     \<lparr>external_stop_call = False, queue_progress_index = - 1, queue = [], volume = 1,
      loop = False, estimate_position = False, interval = 1, pos_estimate = 0,
      state = '''', clock_event = None, current_sound_obj = None,
      sounds = (\<lambda>h. new_sound ''''), next_handle = 0, aliases = Map.empty,
      loadable = can_open, float_str = (\<lambda>r. '''')\<rparr>"

section \<open>\<^verbatim>\<open>audioplayer.py\<close>: iteration, length, containment and volume\<close>

text \<open>
  \<^verbatim>\<open>
  def __iter__(self):
      for sound_obj in self._queue[self._queue_progress_index + 1:]:
          yield sound_obj
  def __len__(self):
      return len(self._queue[self._queue_progress_index + 1:])
  def __contains__(self, item):
      return item in self._queue[self._queue_progress_index + 1:]
  \<close>
\<close>

definition player_iter :: "player \<Rightarrow> handle list" where
  "player_iter p = py_slice_from (queue p) (queue_progress_index p + 1)"

definition player_len :: "player \<Rightarrow> int" where
  "player_len p = int (length (py_slice_from (queue p) (queue_progress_index p + 1)))"

definition player_contains :: "player \<Rightarrow> handle \<Rightarrow> bool" where
  "player_contains p item = (item \<in> set (py_slice_from (queue p) (queue_progress_index p + 1)))"

text \<open>A number as Python compares it.\<close>

fun number_value :: "py_value \<Rightarrow> real" where
  "number_value (PyBool b) = (if b then 1 else 0)"
| "number_value (PyInt i) = real_of_int i"
| "number_value (PyFloat r) = r"
| "number_value _ = 0"

text \<open>
  \<^verbatim>\<open>
  @volume.setter
  def volume(self, new_volume):
      NumberConversion.is_allowed(new_volume)
      if 0 > new_volume > 1:
          raise ValueError("volume can only be from 0-1")
      self._volume = new_volume
      for sound_obj in self._queue:
          sound_obj.volume = self._volume
  \<close>
  The chained comparison \<^verbatim>\<open>0 > new_volume > 1\<close> is
  \<^verbatim>\<open>0 > new_volume and new_volume > 1\<close>.
\<close>

definition set_volume :: "py_value \<Rightarrow> player \<Rightarrow> outcome" where
  "set_volume new_volume p =
     (case is_allowed NumberConversion_allowed_types new_volume of
        Inl e \<Rightarrow> Raised e p
      | Inr _ \<Rightarrow>
          (if 0 > number_value new_volume \<and> number_value new_volume > 1
           then Raised ValueError p
           else (let p1 = p\<lparr>volume := number_value new_volume\<rparr>
                 in Done (fold (\<lambda>sound_obj q. update_sound sound_obj
                                   (\<lambda>s. s\<lparr>sound_volume := volume q\<rparr>) q)
                            (queue p1) p1))))"

section \<open>When \<^verbatim>\<open>play\<close> cannot return\<close>

text \<open>
  A call is stuck when the queue is empty and the loop flag is set, and, for
  \<^verbatim>\<open>play\<close>, there is no current sound object: \<^verbatim>\<open>play\<close> calls
  \<^verbatim>\<open>_jump_to_index(0)\<close>, which fails, resets and calls \<^verbatim>\<open>play\<close> again.
\<close>

definition stuck :: "call \<Rightarrow> player \<Rightarrow> bool" where
  "stuck c p =
     (queue p = [] \<and> loop p \<and>
      (case c of Play \<Rightarrow> current_sound_obj p = None | JumpToIndex _ \<Rightarrow> True))"

section \<open>Properties the claims speak of\<close>

text \<open>The progress index is \<open>-1\<close> or an index into the queue.\<close>

definition index_valid :: "player \<Rightarrow> bool" where
  "index_valid p =
     (queue_progress_index p = - 1 \<or>
      (0 \<le> queue_progress_index p \<and> queue_progress_index p < int (length (queue p))))"

text \<open>A reference that \<^verbatim>\<open>load\<close> can turn into a handle: after the alias lookup it is
  a sound object, or \<^verbatim>\<open>SoundLoader\<close> can open the source it names.\<close>

definition valid_reference :: "bool \<Rightarrow> player \<Rightarrow> py_value \<Rightarrow> bool" where
  "valid_reference ignore_aliases p audio_file =
     (case resolve_alias ignore_aliases p audio_file of
        PySound h \<Rightarrow> True
      | v \<Rightarrow> loadable p (as_str p v))"

text \<open>A \<^verbatim>\<open>SoundLoader\<close> that opens every source.\<close>

definition any_source :: "string \<Rightarrow> bool" where
  "any_source filename = True"

text \<open>What a call that only plays, jumps and seeks leaves alone: the position
  estimate and the external-stop flag; and it stops no sound.\<close>

definition kept :: "player \<Rightarrow> player \<Rightarrow> bool" where
  "kept p q =
     (pos_estimate q = pos_estimate p \<and> external_stop_call q = external_stop_call p \<and>
      (\<forall>h. sound_state (sounds q h) = sound_state (sounds p h) \<or>
           sound_state (sounds q h) = ''play''))"

text \<open>
  A player to run the handler on: it is on the first of two tracks, the estimator's
  clock running and the estimate at five seconds, with a given external-stop flag.
\<close>

definition player_on_first_track :: "bool \<Rightarrow> player" where
  "player_on_first_track flag =
     (empty_env any_source)
       \<lparr>external_stop_call := flag, queue_progress_index := 0, queue := [0, 1],
        estimate_position := True, pos_estimate := 5, state := ''play'',
        clock_event := Some Scheduled, current_sound_obj := Some 0\<rparr>"

section \<open>Sequences of operations\<close>

text \<open>
  The public operations on the queue and the transport, and the one event that
  reaches the player from outside, the end of a track (the handle \<open>h\<close> stops itself).
  A caller may go on after an exception, so a sequence continues from the player as
  the failed call left it; it ends only when a call does not return.
\<close>

datatype operation =
    Load "py_value list" bool bool
  | ClearQueue
  | Unload
  | PlayOp
  | StopOp
  | SkipToNext bool bool bool
  | SkipToPrevious bool bool bool
  | SetVolume py_value
  | TrackEnded handle

fun perform :: "operation \<Rightarrow> player \<Rightarrow> outcome option" where
  "perform (Load args clear_previous_queue ignore_aliases) p =
     Some (load args clear_previous_queue ignore_aliases p)"
| "perform ClearQueue p = Some (Done (clear_queue p))"
| "perform Unload p = Some (Done (unload p))"
| "perform PlayOp p = play p"
| "perform StopOp p = stop p"
| "perform (SkipToNext a b c) p = skip_to_next a b c p"
| "perform (SkipToPrevious a b c) p = skip_to_previous a b c p"
| "perform (SetVolume v) p = Some (set_volume v p)"
| "perform (TrackEnded h) p = sound_stop h p"

fun perform_all :: "operation list \<Rightarrow> player \<Rightarrow> player option" where
  "perform_all [] p = Some p"
| "perform_all (x # xs) p =
     (case perform x p of
        None \<Rightarrow> None
      | Some r \<Rightarrow> perform_all xs (final_player r))"

text \<open>The operations that empty the queue.\<close>

fun clears_queue :: "operation \<Rightarrow> bool" where
  "clears_queue (Load args clear_previous_queue ignore_aliases) = clear_previous_queue"
| "clears_queue ClearQueue = True"
| "clears_queue Unload = True"
| "clears_queue _ = False"

text \<open>
  Relations between the player before and after a call: the queue and the index are
  the same; or the queue is the same, a valid index is still valid and an index of at
  least \<open>-1\<close> still is; and, for the two mutually recursive calls, what the call
  promises given its argument.
\<close>

definition same_place :: "player \<Rightarrow> player \<Rightarrow> bool" where
  "same_place p q = (queue q = queue p \<and> queue_progress_index q = queue_progress_index p)"

definition lands_well :: "call \<Rightarrow> player \<Rightarrow> player \<Rightarrow> bool" where
  "lands_well c p q =
     (queue q = queue p \<and>
      (case c of
         Play \<Rightarrow> (index_valid p \<longrightarrow> index_valid q) \<and>
                 (- 1 \<le> queue_progress_index p \<longrightarrow> - 1 \<le> queue_progress_index q)
       | JumpToIndex i \<Rightarrow> (0 \<le> i \<longrightarrow> index_valid q) \<and>
                          (- 1 \<le> i \<longrightarrow> - 1 \<le> queue_progress_index q)))"

definition keeps_index :: "player \<Rightarrow> player \<Rightarrow> bool" where
  "keeps_index p q =
     (queue q = queue p \<and> (index_valid p \<longrightarrow> index_valid q) \<and>
      (- 1 \<le> queue_progress_index p \<longrightarrow> - 1 \<le> queue_progress_index q))"

section \<open>Basic facts\<close>

lemma and_then_simps [simp]:
  "and_then None f = None"
  "and_then (Some (Raised e p)) f = Some (Raised e p)"
  "and_then (Some (Done p)) f = f p"
  by (simp_all add: and_then_def)

text \<open>The two methods, as the source writes them.\<close>

lemma jump_to_index_unfold:
  "jump_to_index index p =
     (case set_current_sound_obj (p\<lparr>queue_progress_index := index\<rparr>) of
        Done q \<Rightarrow> Some (Done q)
      | Raised e q \<Rightarrow>
          (if e = IndexError
           then (if loop q
                 then play (q\<lparr>queue_progress_index := - 1, current_sound_obj := None\<rparr>)
                 else Some (Done (q\<lparr>queue_progress_index := - 1, current_sound_obj := None\<rparr>)))
           else Some (Raised e q)))"
  unfolding jump_to_index_def play_def by (subst run.simps) simp

lemma play_unfold:
  "play p =
     and_then (if current_sound_obj p = None then jump_to_index 0 p else Some (Done p))
       play_current"
proof -
  have bind_eq:
    "Option.bind x (\<lambda>r. case r of Raised e q \<Rightarrow> Some (Raised e q) | Done q \<Rightarrow> play_current q)
       = and_then x play_current" for x
    by (cases x) (simp_all add: and_then_def split: outcome.splits)
  show ?thesis
    unfolding jump_to_index_def play_def by (subst run.simps) (simp add: bind_eq)
qed

section \<open>Termination of \<^verbatim>\<open>play\<close>\<close>

lemma run_returns_not_stuck:
  assumes "run c p = Some y"
  shows "\<not> stuck c p"
proof (rule run.raw_induct [where P = "\<lambda>c p y. \<not> stuck c p", OF _ assms])
  fix f c p y
  assume IH: "\<And>c p y. f c p = Some y \<Longrightarrow> \<not> stuck c p"
    and step: "(case c of
        Play \<Rightarrow>
          Option.bind
            (if current_sound_obj p = None then f (JumpToIndex 0) p else Some (Done p))
            (\<lambda>r. case r of Done q \<Rightarrow> play_current q | Raised e q \<Rightarrow> Some (Raised e q))
      | JumpToIndex index \<Rightarrow>
          (case set_current_sound_obj (p\<lparr>queue_progress_index := index\<rparr>) of
             Done q \<Rightarrow> Some (Done q)
           | Raised e q \<Rightarrow>
               (if e = IndexError
                then (if loop q
                      then f Play (q\<lparr>queue_progress_index := - 1, current_sound_obj := None\<rparr>)
                      else Some (Done (q\<lparr>queue_progress_index := - 1, current_sound_obj := None\<rparr>)))
                else Some (Raised e q)))) = Some y"
  show "\<not> stuck c p"
  proof (cases c)
    case Play
    with step IH [of "JumpToIndex 0" p] show ?thesis
      by (auto split: if_splits simp: bind_eq_Some_conv stuck_def)
  next
    case (JumpToIndex i)
    with step IH [of Play "p\<lparr>queue_progress_index := - 1, current_sound_obj := None\<rparr>"]
    show ?thesis
      by (auto simp: stuck_def set_current_sound_obj_def py_index_def
               split: if_splits outcome.splits sum.splits)
  qed
qed

lemma play_stuck:
  "current_sound_obj p = None \<Longrightarrow> queue p = [] \<Longrightarrow> loop p \<Longrightarrow> play p = None"
  using run_returns_not_stuck [of Play p] unfolding play_def stuck_def
  by (cases "run Play p") auto

lemma dispatch_total:
  "dispatch n (\<lambda>q. Some (Done (f q))) p = Some (Done ((f ^^ n) p))"
  by (induction n arbitrary: p) (simp_all add: funpow_swap1)

lemma initialize_estimation_idem:
  "initialize_estimation (initialize_estimation p) = initialize_estimation p"
  by (simp add: initialize_estimation_def start_clock_def)

lemma initialize_estimation_funpow:
  "(initialize_estimation ^^ n) p = (if n = 0 then p else initialize_estimation p)"
  by (induction n) (simp_all add: initialize_estimation_idem)

text \<open>\<^verbatim>\<open>sound.play()\<close> always returns.\<close>

lemma sound_play_eq:
  "sound_play h p =
     Some (Done (let q = update_sound h (\<lambda>s. s\<lparr>sound_state := ''play''\<rparr>) p
                 in if on_play_bound (sounds p h) = 0 then q else initialize_estimation q))"
  by (simp add: sound_play_def dispatch_total initialize_estimation_funpow Let_def)

lemma play_current_returns: "\<exists>y. play_current p = Some y"
  by (cases "current_sound_obj p") (simp_all add: play_current_def sound_play_eq)

text \<open>\<^verbatim>\<open>play\<close> returns (normally or with an exception) from every state but the stuck
  one, and from that one it never returns.\<close>

lemma play_returns_iff:
  "(\<exists>y. play p = Some y) = (\<not> (current_sound_obj p = None \<and> queue p = [] \<and> loop p))"
proof (cases "current_sound_obj p = None \<and> queue p = [] \<and> loop p")
  case True
  then show ?thesis by (simp add: play_stuck)
next
  case False
  have "\<exists>y. play p = Some y"
  proof (cases "current_sound_obj p")
    case (Some h)
    then show ?thesis by (simp add: play_unfold play_current_returns)
  next
    case None
    show ?thesis
    proof (cases "queue p")
      case Nil
      with None False have "\<not> loop p" by simp
      with None Nil show ?thesis
        by (simp add: play_unfold jump_to_index_unfold set_current_sound_obj_def py_index_def
              play_current_returns)
    next
      case (Cons h hs)
      with None show ?thesis
        by (simp add: play_unfold jump_to_index_unfold set_current_sound_obj_def py_index_def
              play_current_returns)
    qed
  qed
  with False show ?thesis by simp
qed

text \<open>
  Claim C10 says that \<^verbatim>\<open>play()\<close> terminates in every reachable state, the player
  constructed with an empty queue and the loop flag included. On that very player the
  recursion between \<^verbatim>\<open>play\<close> and \<^verbatim>\<open>_jump_to_index\<close> has no base case:
  \<^verbatim>\<open>AudioPlayer(queue=(), loop=True).play()\<close> never returns.
\<close>

theorem play_on_empty_looping_player_never_returns:
  "(case AudioPlayer [] 1 True True 1 (empty_env (\<lambda>s. True)) of
      Done p \<Rightarrow> play p = None
    | Raised e p \<Rightarrow> False)"
  by (simp add: AudioPlayer_def load_def play_stuck)

section \<open>\<^verbatim>\<open>play\<close> after \<^verbatim>\<open>unload\<close>\<close>

lemmas load_simps =
  AudioPlayer_def load_def load_one_def resolve_alias_def get_alias_def dict_key_def empty_env_def
  as_sound_obj_def as_str_def py_str_def SoundLoader_load_def configure_sound_obj_def
  update_sound_def new_sound_def clear_queue_def

lemmas play_simps =
  play_unfold jump_to_index_unfold set_current_sound_obj_def py_index_def play_current_def
  sound_play_eq initialize_estimation_def start_clock_def update_sound_def Let_def

lemmas stop_simps =
  stop_def sound_stop_def cancel_estimation_def cancel_clock_def update_sound_def Let_def

text \<open>
  Claim C4 says that \<^verbatim>\<open>play()\<close> on the empty queue left by \<^verbatim>\<open>unload()\<close> raises and
  does not play a released handle. After \<^verbatim>\<open>load("a.mp3"); play(); stop(); unload()\<close>
  the call \<^verbatim>\<open>play()\<close> returns normally: \<^verbatim>\<open>unload\<close> has kept the current sound
  object, so \<^verbatim>\<open>play\<close> calls \<^verbatim>\<open>play()\<close> on the released handle and reports the
  state \<^verbatim>\<open>"play"\<close>.
\<close>

theorem play_after_unload_plays_released_handle:
  "\<exists>p0 p1 p2 p3.
     AudioPlayer [PyStr ''a.mp3''] 1 False True 1 (empty_env (\<lambda>s. True)) = Done p0 \<and>
     play p0 = Some (Done p1) \<and> current_sound_obj p1 = Some 0 \<and>
     stop p1 = Some (Done p2) \<and> sound_state (sounds p2 0) = ''stop'' \<and>
     queue (unload p2) = [] \<and> state (unload p2) = ''queue empty'' \<and>
     unloaded (sounds (unload p2) 0) \<and>
     play (unload p2) = Some (Done p3) \<and>
     state p3 = ''play'' \<and> sound_state (sounds p3 0) = ''play'' \<and> unloaded (sounds p3 0)"
  by (simp add: load_simps play_simps stop_simps unload_def)

section \<open>\<^verbatim>\<open>humanize_duration\<close>\<close>

lemmas humanize_simps =
  humanize_duration_def timedelta_of_seconds_def str_timedelta_def fmt_d_def fmt_02d_def
  str_nat.simps digit_char_def py_index_def

lemmas parse_simps = parse_hms_def parse_nat_def digit_val_def

text \<open>The checks of \<^verbatim>\<open>tests/test_utils.py\<close>.\<close>

lemma test_humanize_duration:
  "humanize_duration 10 True = Inr ''0:10''"
  "humanize_duration (60 * 2) True = Inr ''2:00''"
  "humanize_duration (60 * 2 + 30) True = Inr ''2:30''"
  "humanize_duration (60 * 60) True = Inr ''1:00:00''"
  "humanize_duration 10 False = Inr ''0:00:10''"
  "humanize_duration (60 * 2) False = Inr ''0:02:00''"
  "humanize_duration (60 * 2 + 30) False = Inr ''0:02:30''"
  "humanize_duration (60 * 60) False = Inr ''1:00:00''"
  by (simp_all add: humanize_simps)

lemma test_normalize_index:
  "normalize_index [0, 1, 2 :: int] 0 = Inr 0"
  "normalize_index [0, 1, 2 :: int] 1 = Inr 1"
  "normalize_index [0, 1, 2 :: int] 2 = Inr 2"
  "normalize_index [0, 1, 2 :: int] (- 1) = Inr 2"
  "normalize_index [0, 1, 2 :: int] (- 2) = Inr 1"
  "normalize_index [0, 1, 2 :: int] (- 3) = Inr 0"
  "normalize_index [0, 1, 2 :: int] 3 = Inl IndexError"
  "normalize_index [0, 1, 2 :: int] (- 4) = Inl IndexError"
  by (simp_all add: normalize_index_def)

text \<open>
  Below one day the text reads back to the number of seconds it was made from,
  whether the leading zero is removed or not.
\<close>

lemma digit_cases: "d < 10 \<Longrightarrow> d \<in> {0, 1, 2, 3, 4, 5, 6, 7, 8, 9::nat}"
  by auto

lemma digit_val_digit_char: "d < 10 \<Longrightarrow> digit_val (digit_char d) = Some d"
  using digit_cases [of d] by (auto simp: digit_val_def digit_char_def)

lemma digit_char_not_colon: "digit_char d \<noteq> CHR '':''" "CHR '':'' \<noteq> digit_char d"
  by (simp_all add: digit_char_def)

lemma parse_digits_snoc:
  "parse_digits acc (xs @ [c]) =
     (case parse_digits acc xs of
        None \<Rightarrow> None
      | Some a \<Rightarrow> (case digit_val c of None \<Rightarrow> None | Some d \<Rightarrow> Some (10 * a + d)))"
  by (induction xs arbitrary: acc) (simp_all split: option.splits)

lemma parse_digits_str_nat: "parse_digits 0 (str_nat n) = Some n"
proof (induction n rule: str_nat.induct)
  case (1 n)
  show ?case
  proof (cases "n < 10")
    case True
    then show ?thesis by (subst str_nat.simps) (simp add: digit_val_digit_char)
  next
    case False
    with 1 show ?thesis
      by (subst str_nat.simps) (simp add: parse_digits_snoc digit_val_digit_char)
  qed
qed

lemma str_nat_not_empty: "str_nat n \<noteq> []"
  by (subst str_nat.simps) simp

lemma colon_not_in_str_nat: "CHR '':'' \<notin> set (str_nat n)"
proof (induction n rule: str_nat.induct)
  case (1 n)
  then show ?case
    by (subst str_nat.simps) (auto simp: digit_char_not_colon)
qed

lemma parse_digits_leading_zeros:
  "parse_digits 0 (replicate k CHR ''0'' @ s) = parse_digits 0 s"
  by (induction k) (simp_all add: digit_val_def)

lemma parse_nat_fmt_d: "0 \<le> i \<Longrightarrow> parse_nat (fmt_d i) = Some (nat i)"
  by (simp add: parse_nat_def fmt_d_def parse_digits_str_nat str_nat_not_empty)

lemma parse_nat_fmt_02d: "0 \<le> i \<Longrightarrow> parse_nat (fmt_02d i) = Some (nat i)"
  by (simp add: parse_nat_def fmt_02d_def parse_digits_leading_zeros parse_digits_str_nat
        str_nat_not_empty)

lemma colon_not_in_fmt: 
  "0 \<le> i \<Longrightarrow> CHR '':'' \<notin> set (fmt_d i)"
  "0 \<le> i \<Longrightarrow> CHR '':'' \<notin> set (fmt_02d i)"
  by (auto simp: fmt_d_def fmt_02d_def colon_not_in_str_nat)

lemma split_on_none: "c \<notin> set a \<Longrightarrow> split_on c a = [a]"
  by (induction a) auto

lemma split_on_field: "c \<notin> set a \<Longrightarrow> split_on c (a @ c # b) = a # split_on c b"
  by (induction a) auto

lemma fmt_02d_small: "0 \<le> i \<Longrightarrow> i < 10 \<Longrightarrow> fmt_02d i = [CHR ''0'', digit_char (nat i)]"
proof -
  assume "0 \<le> i" "i < 10"
  then have "nat i < 10" by simp
  then have "str_nat (nat i) = [digit_char (nat i)]" by (subst str_nat.simps) simp
  with \<open>0 \<le> i\<close> show ?thesis by (simp add: fmt_02d_def)
qed

lemma split_hms:
  assumes "0 \<le> h" "0 \<le> m" "0 \<le> x"
  shows "split_on CHR '':'' (fmt_d h @ CHR '':'' # fmt_02d m @ CHR '':'' # fmt_02d x)
           = [fmt_d h, fmt_02d m, fmt_02d x]"
  using assms by (simp add: split_on_field split_on_none colon_not_in_fmt)

lemma split_ms:
  assumes "0 \<le> m" "0 \<le> x"
  shows "split_on CHR '':'' (fmt_02d m @ CHR '':'' # fmt_02d x) = [fmt_02d m, fmt_02d x]"
  using assms by (simp add: split_on_field split_on_none colon_not_in_fmt)

lemma split_digit_s:
  assumes "0 \<le> x"
  shows "split_on CHR '':'' (digit_char d # CHR '':'' # fmt_02d x) = [[digit_char d], fmt_02d x]"
  using assms split_on_field [of "CHR '':''" "[digit_char d]" "fmt_02d x"]
  by (simp add: split_on_none colon_not_in_fmt digit_char_not_colon)

lemma parse_nat_digit: "d < 10 \<Longrightarrow> parse_nat [digit_char d] = Some d"
  by (simp add: parse_nat_def digit_val_digit_char)


lemma timedelta_within_a_day:
  assumes "0 \<le> s" "s < 86400"
  shows "timedelta_of_seconds s = Inr \<lparr>days = 0, seconds_of_day = s\<rparr>"
  using assms by (simp add: timedelta_of_seconds_def)

lemma str_timedelta_no_days:
  "str_timedelta \<lparr>days = 0, seconds_of_day = s\<rparr>
     = fmt_d (s div 60 div 60) @ CHR '':'' # fmt_02d (s div 60 mod 60) @ CHR '':'' # fmt_02d (s mod 60)"
  by (simp add: str_timedelta_def Let_def)

lemma humanize_long:
  assumes "0 \<le> s" "s < 86400" "\<not> (remove_leading_zero \<and> s < 3600)"
  shows "humanize_duration s remove_leading_zero
           = Inr (fmt_d (s div 60 div 60) @ CHR '':'' # fmt_02d (s div 60 mod 60) @
                  CHR '':'' # fmt_02d (s mod 60))"
proof -
  from assms(3) have c: "(remove_leading_zero \<and> s < 3600) = False" by simp
  show ?thesis
    by (simp only: humanize_duration_def timedelta_within_a_day [OF assms(1,2)] sum.case Let_def
          str_timedelta_no_days c if_False)
qed

lemma humanize_minutes:
  assumes "0 \<le> s" "s < 3600" "\<not> s < 600"
  shows "humanize_duration s True
           = Inr (fmt_02d (s div 60 mod 60) @ CHR '':'' # fmt_02d (s mod 60))"
proof -
  have "s < 86400" using assms by simp
  note t = timedelta_within_a_day [OF assms(1) this]
  have sp: "split_on CHR '':'' (fmt_d (s div 60 div 60) @ CHR '':'' # fmt_02d (s div 60 mod 60) @
              CHR '':'' # fmt_02d (s mod 60))
     = [fmt_d (s div 60 div 60), fmt_02d (s div 60 mod 60), fmt_02d (s mod 60)]"
    using assms(1) by (intro split_hms) simp_all
  from assms have c: "(True \<and> s < 3600) = True" "(s < 10 * 60) = False" by simp_all
  show ?thesis
    by (simp only: humanize_duration_def t sum.case Let_def str_timedelta_no_days c if_True
          if_False sp list.case append_Cons append_Nil)
qed

lemma humanize_short:
  assumes "0 \<le> s" "s < 600"
  shows "humanize_duration s True
           = Inr (digit_char (nat (s div 60 mod 60)) # CHR '':'' # fmt_02d (s mod 60))"
proof -
  have "s < 86400" using assms by simp
  note t = timedelta_within_a_day [OF assms(1) this]
  have sp: "split_on CHR '':'' (fmt_d (s div 60 div 60) @ CHR '':'' # fmt_02d (s div 60 mod 60) @
              CHR '':'' # fmt_02d (s mod 60))
     = [fmt_d (s div 60 div 60), fmt_02d (s div 60 mod 60), fmt_02d (s mod 60)]"
    using assms(1) by (intro split_hms) simp_all
  have m: "0 \<le> s div 60 mod 60" "s div 60 mod 60 < 10" using assms by simp_all
  have ix: "py_index (fmt_02d (s div 60 mod 60)) 1 = Inr (digit_char (nat (s div 60 mod 60)))"
    by (simp add: fmt_02d_small [OF m] py_index_def)
  from assms have c: "(True \<and> s < 3600) = True" "(s < 10 * 60) = True" by simp_all
  show ?thesis
    by (simp only: humanize_duration_def t sum.case Let_def str_timedelta_no_days c if_True
          sp list.case ix append_Cons append_Nil)
qed

lemma parse_long:
  assumes "0 \<le> h" "0 \<le> m" "0 \<le> x"
  shows "parse_hms (fmt_d h @ CHR '':'' # fmt_02d m @ CHR '':'' # fmt_02d x)
           = Some (nat h * 3600 + nat m * 60 + nat x)"
  by (simp add: parse_hms_def split_hms [OF assms] parse_nat_fmt_d [OF assms(1)]
        parse_nat_fmt_02d [OF assms(2)] parse_nat_fmt_02d [OF assms(3)])

lemma parse_minutes:
  assumes "0 \<le> m" "0 \<le> x"
  shows "parse_hms (fmt_02d m @ CHR '':'' # fmt_02d x) = Some (nat m * 60 + nat x)"
  by (simp add: parse_hms_def split_ms [OF assms] parse_nat_fmt_02d [OF assms(1)]
        parse_nat_fmt_02d [OF assms(2)])

lemma parse_short:
  assumes "d < 10" "0 \<le> x"
  shows "parse_hms (digit_char d # CHR '':'' # fmt_02d x) = Some (d * 60 + nat x)"
  by (simp only: parse_hms_def split_digit_s [OF assms(2)] parse_nat_fmt_02d [OF assms(2)]
        parse_nat_digit [OF assms(1)] list.case prod.case option.case)

lemma humanize_duration_roundtrip_within_a_day:
  assumes "0 \<le> s" "s < 86400"
  shows "\<exists>t. humanize_duration s remove_leading_zero = Inr t \<and> parse_hms t = Some (nat s)"
proof -
  let ?hh = "s div 60 div 60" and ?mm = "s div 60 mod 60" and ?ss = "s mod 60"
  have nn: "0 \<le> ?hh" "0 \<le> ?mm" "0 \<le> ?ss" using assms by simp_all
  have conv: "nat ?hh = nat s div 60 div 60" "nat ?mm = nat s div 60 mod 60"
    "nat ?ss = nat s mod 60"
    using assms(1) by (simp_all add: nat_div_distrib nat_mod_distrib)
  have "n div 60 div 60 * 3600 + n div 60 mod 60 * 60 + n mod 60 = n" for n :: nat
    using div_mult_mod_eq [of n 60] div_mult_mod_eq [of "n div 60" 60] by linarith
  then have total: "nat ?hh * 3600 + nat ?mm * 60 + nat ?ss = nat s"
    unfolding conv .
  show ?thesis
  proof (cases "remove_leading_zero \<and> s < 3600")
    case False
    from parse_long [OF nn] have "parse_hms (fmt_d ?hh @ CHR '':'' # fmt_02d ?mm @
        CHR '':'' # fmt_02d ?ss) = Some (nat s)"
      by (simp only: total)
    with humanize_long [OF assms False] show ?thesis
      by (intro exI conjI)
  next
    case True
    then have r: "remove_leading_zero = True" and lt: "s < 3600" by simp_all
    from lt assms(1) have h0: "nat ?hh = 0" by simp
    from total have total': "nat ?mm * 60 + nat ?ss = nat s"
      by (simp only: h0 mult_0 add_0)
    show ?thesis
    proof (cases "s < 600")
      case False
      from parse_minutes [OF nn(2,3)]
      have "parse_hms (fmt_02d ?mm @ CHR '':'' # fmt_02d ?ss) = Some (nat s)"
        by (simp only: total')
      with humanize_minutes [OF assms(1) lt False] show ?thesis
        unfolding r by (intro exI conjI)
    next
      case small: True
      with assms(1) have "nat ?mm < 10" by simp
      from parse_short [OF this nn(3)]
      have "parse_hms (digit_char (nat ?mm) # CHR '':'' # fmt_02d ?ss) = Some (nat s)"
        by (simp only: total')
      with humanize_short [OF assms(1) small] show ?thesis
        unfolding r by (intro exI conjI)
    qed
  qed
qed

text \<open>
  Claim C9 says that for every non-negative integer \<open>s\<close> the text
  \<^verbatim>\<open>humanize_duration(s)\<close> reads back as hours, minutes and seconds to \<open>s\<close>. From one
  day on, \<^verbatim>\<open>str(timedelta)\<close> puts the days in front, and the text is no longer of the
  form the docstring of \<^verbatim>\<open>humanize_duration\<close> announces (H:M:S): at \<open>s = 86400\<close> it is
  \<^verbatim>\<open>"1 day, 0:00:00"\<close>, which does not read back. Below one day the round trip
  holds (lemma \<open>humanize_duration_roundtrip_within_a_day\<close>).
\<close>

theorem humanize_duration_one_day_not_hms:
  "humanize_duration 86400 True = Inr ''1 day, 0:00:00'' \<and>
   humanize_duration 86400 False = Inr ''1 day, 0:00:00'' \<and>
   parse_hms ''1 day, 0:00:00'' = None"
  by (simp add: humanize_simps parse_simps)

section \<open>The volume setter\<close>

lemma set_volume_never_ValueError: "set_volume v p \<noteq> Raised ValueError q"
  by (auto simp: set_volume_def is_allowed_def isinstance_def split: sum.splits)

lemma set_volume_not_a_number:
  "\<not> isinstance v NumberConversion_allowed_types \<Longrightarrow>
   set_volume v p = Raised (TypeError_allowed NumberConversion_allowed_types) p"
  by (simp add: set_volume_def is_allowed_def isinstance_def NumberConversion_allowed_types_def)

lemma fold_volume:
  "volume (fold (\<lambda>sound_obj q. update_sound sound_obj (\<lambda>s. s\<lparr>sound_volume := volume q\<rparr>) q)
              hs p0) = volume p0"
  by (induction hs arbitrary: p0) (simp_all add: update_sound_def)

lemma set_volume_stores:
  "set_volume (PyFloat r) p = Done q \<Longrightarrow> volume q = r"
  "set_volume (PyInt i) p = Done q \<Longrightarrow> volume q = real_of_int i"
  using fold_volume [of "queue p" "p\<lparr>volume := r\<rparr>"]
        fold_volume [of "queue p" "p\<lparr>volume := real_of_int i\<rparr>"]
  by (auto simp: set_volume_def is_allowed_def isinstance_def NumberConversion_allowed_types_def Let_def
           split: if_splits)

text \<open>The boundary values are accepted.\<close>

lemma set_volume_boundaries:
  "\<exists>q. set_volume (PyFloat 0) p = Done q \<and> volume q = 0"
  "\<exists>q. set_volume (PyFloat 1) p = Done q \<and> volume q = 1"
  using fold_volume [of "queue p" "p\<lparr>volume := 0\<rparr>"]
        fold_volume [of "queue p" "p\<lparr>volume := 1\<rparr>"]
  by (auto simp: set_volume_def is_allowed_def isinstance_def NumberConversion_allowed_types_def Let_def)

text \<open>\<^verbatim>\<open>True\<close> is an \<^verbatim>\<open>int\<close> to \<^verbatim>\<open>isinstance\<close> and is stored as the volume \<open>1\<close>.\<close>

lemma set_volume_bool:
  "\<exists>q. set_volume (PyBool True) p = Done q \<and> volume q = 1"
  using fold_volume [of "queue p" "p\<lparr>volume := 1\<rparr>"]
  by (auto simp: set_volume_def is_allowed_def isinstance_def NumberConversion_allowed_types_def
        Let_def)

text \<open>
  Claim C5 says that a volume outside \<open>[0, 1]\<close> is rejected with a \<^verbatim>\<open>ValueError\<close>
  before anything changes. The guard \<^verbatim>\<open>if 0 > new_volume > 1\<close> is never true, so the
  error the setter means to raise ("volume can only be from 0-1") is never raised: on
  a player at volume \<open>0.5\<close> with one queued sound, setting \<open>1.5\<close> or \<open>-0.1\<close> returns
  normally and stores the value in the player and in the queued sound.
\<close>

theorem volume_out_of_range_is_stored:
  "\<exists>p0 p1 p2.
     AudioPlayer [PyStr ''a.mp3''] (1/2) False True 1 (empty_env (\<lambda>s. True)) = Done p0 \<and>
     volume p0 = 1/2 \<and> queue p0 = [0] \<and> sound_volume (sounds p0 0) = 1/2 \<and>
     set_volume (PyFloat (3/2)) p0 = Done p1 \<and>
     volume p1 = 3/2 \<and> sound_volume (sounds p1 0) = 3/2 \<and>
     set_volume (PyFloat (- 1/10)) p0 = Done p2 \<and>
     volume p2 = - 1/10 \<and> sound_volume (sounds p2 0) = - 1/10"
  by (simp add: load_simps set_volume_def is_allowed_def isinstance_def NumberConversion_allowed_types_def)

section \<open>Iteration, length and containment\<close>

text \<open>
  Claim C8: iterating the player yields the tail of the queue that follows the current
  progress index (the whole queue at index \<open>-1\<close>, the tracks after the current one
  otherwise), and \<^verbatim>\<open>len\<close> and \<^verbatim>\<open>in\<close> are the length of and the membership in that
  same tail.
\<close>

theorem iteration_length_containment_over_tail:
  assumes "- 1 \<le> queue_progress_index p"
  shows "player_iter p = drop (nat (queue_progress_index p + 1)) (queue p) \<and>
         player_len p = int (length (player_iter p)) \<and>
         player_contains p item = (item \<in> set (player_iter p))"
  using assms
  by (simp add: player_iter_def player_len_def player_contains_def py_slice_from_def)

theorem iteration_length_containment_over_tail_witness:
  "- 1 \<le> queue_progress_index
            ((empty_env (\<lambda>s. True))\<lparr>queue := [0, 1, 2], queue_progress_index := 0\<rparr>) \<and>
   player_iter ((empty_env (\<lambda>s. True))\<lparr>queue := [0, 1, 2], queue_progress_index := 0\<rparr>)
     = [1, 2] \<and>
   player_len ((empty_env (\<lambda>s. True))\<lparr>queue := [0, 1, 2], queue_progress_index := 0\<rparr>)
     = 2 \<and>
   player_contains
     ((empty_env (\<lambda>s. True))\<lparr>queue := [0, 1, 2], queue_progress_index := 0\<rparr>) 2 \<and>
   \<not> player_contains
     ((empty_env (\<lambda>s. True))\<lparr>queue := [0, 1, 2], queue_progress_index := 0\<rparr>) 0"
  using iteration_length_containment_over_tail
          [of "(empty_env (\<lambda>s. True))\<lparr>queue := [0, 1, 2], queue_progress_index := 0\<rparr>" 2]
        iteration_length_containment_over_tail
          [of "(empty_env (\<lambda>s. True))\<lparr>queue := [0, 1, 2], queue_progress_index := 0\<rparr>" 0]
  by (simp add: empty_env_def)

section \<open>The progress index after the queue is cleared\<close>

lemmas skip_simps = skip_to_next_def skip_to_next_unstopped_def seek_def

text \<open>
  Claim C2 says that after every sequence of operations the progress index is \<open>-1\<close> or
  an index into the queue. \<^verbatim>\<open>_jump_to_index\<close> resets an index that falls outside
  the queue, but the three operations that empty the queue leave the index as it was:
  after \<^verbatim>\<open>load("a.mp3", "b.mp3"); play(); skip_to_next()\<close> the index is \<open>1\<close>, and it
  still is after \<^verbatim>\<open>clear_queue()\<close>, after \<^verbatim>\<open>unload()\<close>, and after
  \<^verbatim>\<open>load("c.mp3", clear_previous_queue=True)\<close>, where the queue has no element or one.
  Every sequence of the other operations in which each call returns or raises keeps
  the index valid (lemma \<open>perform_all_index_valid\<close>).
\<close>

theorem index_stale_after_clearing:
  "\<exists>p0 p1 p2 p3.
     AudioPlayer [PyStr ''a.mp3'', PyStr ''b.mp3''] 1 False True 1 (empty_env (\<lambda>s. True))
       = Done p0 \<and>
     play p0 = Some (Done p1) \<and>
     skip_to_next True True True p1 = Some (Done p2) \<and>
     index_valid p2 \<and> queue_progress_index p2 = 1 \<and>
     queue_progress_index (clear_queue p2) = 1 \<and> queue (clear_queue p2) = [] \<and>
     \<not> index_valid (clear_queue p2) \<and>
     \<not> index_valid (unload p2) \<and>
     load [PyStr ''c.mp3''] True False p2 = Done p3 \<and>
     queue_progress_index p3 = 1 \<and> length (queue p3) = 1 \<and> \<not> index_valid p3"
  by (simp add: load_simps play_simps stop_simps skip_simps unload_def index_valid_def)

section \<open>References of a type that is not allowed\<close>

lemma load_one_no_TypeError: "load_one ign v p \<noteq> Raised (TypeError_allowed ts) q"
  by (auto simp: load_one_def configure_sound_obj_def
           split: prod.splits option.splits outcome.splits)

lemma load_args_no_TypeError: "load_args ign vs p \<noteq> Raised (TypeError_allowed ts) q"
  by (induction vs arbitrary: p) (auto simp: load_one_no_TypeError split: outcome.splits)

text \<open>\<^verbatim>\<open>load\<close> never raises the type error of the Conversion Gate, whatever it is given.\<close>

lemma load_no_TypeError: "load vs c ign p \<noteq> Raised (TypeError_allowed ts) q"
  by (auto simp: load_def load_args_no_TypeError split: outcome.splits)

text \<open>
  Claim C6 says that \<^verbatim>\<open>load\<close> of a value whose type is not allowed raises the type
  error that names the allowed types. \<^verbatim>\<open>register\<close> checks its value with
  \<^verbatim>\<open>SoundTypeConversion.is_allowed\<close>; \<^verbatim>\<open>load\<close> goes through
  \<^verbatim>\<open>as_sound_obj\<close>, which does not. \<^verbatim>\<open>load(None)\<close> hands \<^verbatim>\<open>str(None)\<close> to
  \<^verbatim>\<open>SoundLoader\<close>, gets \<^verbatim>\<open>None\<close> back and fails with an \<^verbatim>\<open>AttributeError\<close> when
  it sets the volume; an object of a foreign type whose \<^verbatim>\<open>str()\<close> is a source that
  can be opened is loaded without any error.
\<close>

theorem load_skips_type_check:
  "\<exists>p0 p1.
     AudioPlayer [] 1 False True 1 (empty_env (\<lambda>s. s = ''song.mp3'')) = Done p0 \<and>
     type_of PyNone
       \<notin> set (SoundTypeConversion_allowed_types @ NumberConversion_allowed_types) \<and>
     load [PyNone] False False p0 = Raised AttributeError p0 \<and>
     register (PyStr ''k'') PyNone p0
       = Raised (TypeError_allowed SoundTypeConversion_allowed_types) p0 \<and>
     type_of (PyOther ''song.mp3'')
       \<notin> set (SoundTypeConversion_allowed_types @ NumberConversion_allowed_types) \<and>
     load [PyOther ''song.mp3''] False False p0 = Done p1 \<and> queue p1 = [0] \<and>
     source (sounds p1 0) = ''song.mp3''"
  by (simp add: load_simps register_def is_allowed_def isinstance_def SoundTypeConversion_allowed_types_def
        NumberConversion_allowed_types_def)

section \<open>Loading references\<close>

text \<open>An alias registered under \<^verbatim>\<open>1\<close> is found under \<^verbatim>\<open>1.0\<close> and \<^verbatim>\<open>True\<close> as well,
  and not under the string \<^verbatim>\<open>"1"\<close>.\<close>

lemma register_then_get_alias:
  "\<exists>q. register (PyInt 1) (PyStr ''a.mp3'') p = Done q \<and>
        get_alias q (PyInt 1) = PyStr ''a.mp3'' \<and>
        get_alias q (PyFloat 1) = PyStr ''a.mp3'' \<and>
        get_alias q (PyBool True) = PyStr ''a.mp3'' \<and>
        get_alias q (PyStr ''1'') = get_alias p (PyStr ''1'')"
  by (simp add: register_def is_allowed_def isinstance_def SoundTypeConversion_allowed_types_def
        get_alias_def dict_key_def)

lemma as_str_env:
  assumes "float_str q = float_str p" "\<And>h. v \<noteq> PySound h"
  shows "as_str q v = as_str p v"
  using assms by (cases v) (auto simp: as_str_def py_str_def)

lemma resolve_alias_env:
  assumes "aliases q = aliases p"
  shows "resolve_alias ign q v = resolve_alias ign p v"
  using assms by (simp add: resolve_alias_def get_alias_def dict_key_def)

lemma valid_reference_env:
  assumes "aliases q = aliases p" "loadable q = loadable p" "float_str q = float_str p"
  shows "valid_reference ign q v = valid_reference ign p v"
proof -
  have r: "resolve_alias ign q v = resolve_alias ign p v"
    by (rule resolve_alias_env [OF assms(1)])
  show ?thesis
  proof (cases "resolve_alias ign p v")
    case (PySound h)
    with r show ?thesis by (simp add: valid_reference_def)
  next
    case PyNone
    with r assms(2) as_str_env [OF assms(3), of PyNone] show ?thesis
      by (simp add: valid_reference_def)
  next
    case (PyBool b)
    with r assms(2) as_str_env [OF assms(3), of "PyBool b"] show ?thesis
      by (simp add: valid_reference_def)
  next
    case (PyInt i)
    with r assms(2) as_str_env [OF assms(3), of "PyInt i"] show ?thesis
      by (simp add: valid_reference_def)
  next
    case (PyFloat x)
    with r assms(2) as_str_env [OF assms(3), of "PyFloat x"] show ?thesis
      by (simp add: valid_reference_def)
  next
    case (PyStr s)
    with r assms(2) as_str_env [OF assms(3), of "PyStr s"] show ?thesis
      by (simp add: valid_reference_def)
  next
    case (PyPath s)
    with r assms(2) as_str_env [OF assms(3), of "PyPath s"] show ?thesis
      by (simp add: valid_reference_def)
  next
    case (PyOther s)
    with r assms(2) as_str_env [OF assms(3), of "PyOther s"] show ?thesis
      by (simp add: valid_reference_def)
  qed
qed

lemma load_one_valid:
  assumes "valid_reference ign p v"
  shows "\<exists>h q. load_one ign v p = Done q \<and> queue q = queue p @ [h] \<and>
           aliases q = aliases p \<and> loadable q = loadable p \<and> float_str q = float_str p \<and>
           state q = state p \<and> queue_progress_index q = queue_progress_index p"
proof (cases "resolve_alias ign p v")
  case (PySound h)
  then show ?thesis
    by (simp add: load_one_def as_sound_obj_def configure_sound_obj_def update_sound_def)
qed (use assms in \<open>simp_all add: valid_reference_def load_one_def as_sound_obj_def
        SoundLoader_load_def configure_sound_obj_def update_sound_def\<close>)

lemma load_args_valid:
  assumes "\<forall>v \<in> set refs. valid_reference ign p v"
  shows "\<exists>hs q. load_args ign refs p = Done q \<and> queue q = queue p @ hs \<and>
           length hs = length refs \<and>
           state q = state p \<and> queue_progress_index q = queue_progress_index p"
  using assms
proof (induction refs arbitrary: p)
  case Nil
  then show ?case by simp
next
  case (Cons v refs)
  from Cons.prems obtain h q where q: "load_one ign v p = Done q" "queue q = queue p @ [h]"
    "aliases q = aliases p" "loadable q = loadable p" "float_str q = float_str p"
    "state q = state p" "queue_progress_index q = queue_progress_index p"
    using load_one_valid [of ign p v] by auto
  from Cons.prems have "\<forall>w \<in> set refs. valid_reference ign q w"
    by (simp add: valid_reference_env [OF q(3) q(4) q(5)])
  from Cons.IH [OF this] obtain hs q' where q': "load_args ign refs q = Done q'"
    "queue q' = queue q @ hs" "length hs = length refs" "state q' = state q"
    "queue_progress_index q' = queue_progress_index q"
    by auto
  with q show ?case by simp
qed

text \<open>
  Claim C7 says that \<^verbatim>\<open>load\<close> of \<open>N\<close> valid references appends \<open>N\<close> handles and sets
  the state to \<^verbatim>\<open>"queue loaded"\<close>, and that \<^verbatim>\<open>load\<close> of no reference leaves the
  state as it was, whatever it was. The last part fails: \<^verbatim>\<open>load\<close> ends with
  \<^verbatim>\<open>if self._queue: self._state = "queue loaded"\<close>, so on a non-empty queue
  \<^verbatim>\<open>load()\<close> replaces the state \<^verbatim>\<open>"queue empty"\<close> that the constructor leaves, or
  the state \<^verbatim>\<open>"play"\<close>, by \<^verbatim>\<open>"queue loaded"\<close>.
\<close>

theorem load_nothing_changes_state:
  "state (final_player (AudioPlayer [PyStr ''a.mp3''] 1 False True 1 (empty_env any_source)))
     = ''queue empty'' \<and>
   state (final_player (load [] False False
      (final_player (AudioPlayer [PyStr ''a.mp3''] 1 False True 1 (empty_env any_source)))))
     = ''queue loaded'' \<and>
   state (final_player (the (play
      (final_player (AudioPlayer [PyStr ''a.mp3''] 1 False True 1 (empty_env any_source))))))
     = ''play'' \<and>
   state (final_player (load [] False False (final_player (the (play
      (final_player (AudioPlayer [PyStr ''a.mp3''] 1 False True 1 (empty_env any_source))))))))
     = ''queue loaded''"
  by (simp add: load_simps play_simps any_source_def)

text \<open>
  Claim C7 as amended: for every player and every list of \<open>N\<close> references that each
  resolve to a handle, \<^verbatim>\<open>load\<close> (without \<^verbatim>\<open>clear_previous_queue\<close>) returns
  normally, keeps the queue it found and appends exactly \<open>N\<close> handles, so that a fresh
  player reports the length \<open>N\<close>; the progress index is untouched; the state is
  \<^verbatim>\<open>"queue loaded"\<close> afterwards unless no reference was given and the queue is
  empty, in which case the state is unchanged.
\<close>

theorem load_valid_references:
  assumes "\<forall>v \<in> set refs. valid_reference ign p v"
  shows "\<exists>p'. load refs False ign p = Done p' \<and>
           length (queue p') = length (queue p) + length refs \<and>
           take (length (queue p)) (queue p') = queue p \<and>
           queue_progress_index p' = queue_progress_index p \<and>
           (if refs = [] \<and> queue p = [] then state p' = state p
            else state p' = ''queue loaded'') \<and>
           (if queue p = [] \<and> queue_progress_index p = - 1
            then player_len p' = int (length refs) else True)"
proof -
  from load_args_valid [OF assms] obtain hs q where q: "load_args ign refs p = Done q"
    "queue q = queue p @ hs" "length hs = length refs" "state q = state p"
    "queue_progress_index q = queue_progress_index p"
    by auto
  then show ?thesis
    by (auto simp: load_def player_len_def py_slice_from_def)
qed

theorem load_valid_references_witness:
  "valid_reference False (empty_env any_source) (PyStr ''a.mp3'') \<and>
   valid_reference False (empty_env any_source) (PyPath ''b.mp3'') \<and>
   (\<exists>p'. load [PyStr ''a.mp3'', PyPath ''b.mp3''] False False (empty_env any_source) = Done p' \<and>
          length (queue p') = 2 \<and> state p' = ''queue loaded'' \<and> player_len p' = 2)"
proof -
  have v: "\<forall>v \<in> set [PyStr ''a.mp3'', PyPath ''b.mp3''].
             valid_reference False (empty_env any_source) v"
    by (simp add: valid_reference_def resolve_alias_def get_alias_def dict_key_def empty_env_def
          any_source_def as_str_def py_str_def)
  from load_valid_references [OF v] v show ?thesis
    by (auto simp: empty_env_def split: if_splits)
qed

section \<open>Stopping, the stop notification and the end of the queue\<close>

text \<open>With the external-stop flag set the handler only cancels the clock.\<close>

lemma cancel_estimation_external:
  assumes "external_stop_call p"
  shows "cancel_estimation p = (if estimate_position p then Some (cancel_clock p) else Some (Done p))"
  using assms
  by (cases "clock_event p") (simp_all add: cancel_estimation_def cancel_clock_def)

lemma dispatch_cancel_external:
  assumes "external_stop_call p" "estimate_position p \<Longrightarrow> clock_event p \<noteq> None"
  shows "dispatch n cancel_estimation p =
           Some (Done (if n = 0 \<or> \<not> estimate_position p then p
                       else p\<lparr>clock_event := Some Cancelled\<rparr>))"
  using assms
proof (induction n arbitrary: p)
  case 0
  then show ?case by simp
next
  case (Suc n)
  show ?case
  proof (cases "estimate_position p")
    case False
    with Suc.prems Suc.IH [of p] show ?thesis
      by (simp add: cancel_estimation_external)
  next
    case True
    with Suc.prems obtain ce where ce: "clock_event p = Some ce" by auto
    let ?q = "p\<lparr>clock_event := Some Cancelled\<rparr>"
    have "dispatch n cancel_estimation ?q =
           Some (Done (if n = 0 \<or> \<not> estimate_position ?q then ?q
                       else ?q\<lparr>clock_event := Some Cancelled\<rparr>))"
      using Suc.prems by (intro Suc.IH) simp_all
    with True ce Suc.prems show ?thesis
      by (simp add: cancel_estimation_external cancel_clock_def)
  qed
qed

lemma stop_eq:
  assumes "current_sound_obj p = Some h" "estimate_position p \<Longrightarrow> clock_event p \<noteq> None"
  shows "stop p =
     Some (Done ((if on_stop_bound (sounds p h) = 0 \<or> \<not> estimate_position p
                  then update_sound h (\<lambda>s. s\<lparr>sound_state := ''stop''\<rparr>) p
                  else (update_sound h (\<lambda>s. s\<lparr>sound_state := ''stop''\<rparr>) p)
                         \<lparr>clock_event := Some Cancelled\<rparr>)
                \<lparr>state := ''stop'', external_stop_call := False\<rparr>))"
proof -
  let ?q = "update_sound h (\<lambda>s. s\<lparr>sound_state := ''stop''\<rparr>) (p\<lparr>external_stop_call := True\<rparr>)"
  have "dispatch (on_stop_bound (sounds p h)) cancel_estimation ?q =
           Some (Done (if on_stop_bound (sounds p h) = 0 \<or> \<not> estimate_position ?q then ?q
                       else ?q\<lparr>clock_event := Some Cancelled\<rparr>))"
    using assms by (intro dispatch_cancel_external) (simp_all add: update_sound_def)
  with assms show ?thesis
    by (simp add: stop_def sound_stop_def update_sound_def)
qed


text \<open>Playing, jumping and seeking keep the estimate and the flag and stop no sound.\<close>

lemma kept_refl: "kept p p" by (simp add: kept_def)

lemma kept_trans: "kept p q \<Longrightarrow> kept q r \<Longrightarrow> kept p r"
  unfolding kept_def by metis

lemma play_current_kept:
  assumes "play_current p = Some r"
  shows "kept p (final_player r)"
  using assms
  by (cases "current_sound_obj p")
     (auto simp: play_current_def sound_play_eq kept_def Let_def update_sound_def
        initialize_estimation_def start_clock_def split: if_splits)

lemma run_kept:
  assumes "run c p = Some r"
  shows "kept p (final_player r)"
proof (rule run.raw_induct [where P = "\<lambda>c p r. kept p (final_player r)", OF _ assms])
  fix f c p r
  assume IH: "\<And>c p r. f c p = Some r \<Longrightarrow> kept p (final_player r)"
    and step: "(case c of
        Play \<Rightarrow>
          Option.bind
            (if current_sound_obj p = None then f (JumpToIndex 0) p else Some (Done p))
            (\<lambda>r. case r of Done q \<Rightarrow> play_current q | Raised e q \<Rightarrow> Some (Raised e q))
      | JumpToIndex index \<Rightarrow>
          (case set_current_sound_obj (p\<lparr>queue_progress_index := index\<rparr>) of
             Done q \<Rightarrow> Some (Done q)
           | Raised e q \<Rightarrow>
               (if e = IndexError
                then (if loop q
                      then f Play (q\<lparr>queue_progress_index := - 1, current_sound_obj := None\<rparr>)
                      else Some (Done (q\<lparr>queue_progress_index := - 1, current_sound_obj := None\<rparr>)))
                else Some (Raised e q)))) = Some r"
  show "kept p (final_player r)"
  proof (cases c)
    case Play
    show ?thesis
    proof (cases "current_sound_obj p = None")
      case False
      with Play step show ?thesis by (simp add: play_current_kept)
    next
      case True
      with Play step obtain r1 where r1: "f (JumpToIndex 0) p = Some r1"
        and r: "(case r1 of Done q \<Rightarrow> play_current q | Raised e q \<Rightarrow> Some (Raised e q)) = Some r"
        by (auto simp: bind_eq_Some_conv)
      from IH [OF r1] have k1: "kept p (final_player r1)" .
      show ?thesis
      proof (cases r1)
        case (Done q)
        with r have "kept q (final_player r)" by (simp add: play_current_kept)
        with k1 Done show ?thesis by (auto intro: kept_trans)
      next
        case (Raised e q)
        with r k1 show ?thesis by auto
      qed
    qed
  next
    case (JumpToIndex i)
    let ?q = "p\<lparr>queue_progress_index := - 1, current_sound_obj := None\<rparr>"
    have kq: "kept p ?q" by (simp add: kept_def)
    have "kept ?q (final_player r) \<or> kept p (final_player r)"
      using JumpToIndex step IH [of Play ?q r]
      by (auto simp: set_current_sound_obj_def kept_def split: sum.splits if_splits)
    with kq show ?thesis by (auto intro: kept_trans)
  qed
qed


lemma play_kept: "play p = Some r \<Longrightarrow> kept p (final_player r)"
  unfolding play_def by (rule run_kept)

lemma jump_to_index_kept: "jump_to_index i p = Some r \<Longrightarrow> kept p (final_player r)"
  unfolding jump_to_index_def by (rule run_kept)

lemma seek_kept: "kept p (final_player (seek x p))"
  by (cases "current_sound_obj p") (simp_all add: seek_def kept_def update_sound_def)

lemma and_then_Some:
  "and_then x f = Some r \<Longrightarrow>
     (\<exists>e q. x = Some (Raised e q) \<and> r = Raised e q) \<or> (\<exists>q. x = Some (Done q) \<and> f q = Some r)"
  by (cases x) (auto simp: and_then_def split: outcome.splits)

lemma skip_to_next_unstopped_kept:
  assumes "skip_to_next_unstopped play_now restart p = Some r"
  shows "kept p (final_player r)"
proof -
  from assms have
    "(\<exists>e q. jump_to_index (queue_progress_index p + 1) p = Some (Raised e q) \<and> r = Raised e q) \<or>
     (\<exists>p1. jump_to_index (queue_progress_index p + 1) p = Some (Done p1) \<and>
        and_then (if restart then Some (seek 0 p1) else Some (Done p1))
          (\<lambda>p2. if play_now then play p2 else Some (Done p2)) = Some r)"
    unfolding skip_to_next_unstopped_def by (rule and_then_Some)
  then show ?thesis
  proof (elim disjE exE conjE)
    fix e q assume "jump_to_index (queue_progress_index p + 1) p = Some (Raised e q)" "r = Raised e q"
    then show ?thesis using jump_to_index_kept by fastforce
  next
    fix p1 assume j: "jump_to_index (queue_progress_index p + 1) p = Some (Done p1)"
      and rest: "and_then (if restart then Some (seek 0 p1) else Some (Done p1))
          (\<lambda>p2. if play_now then play p2 else Some (Done p2)) = Some r"
    from j have k1: "kept p p1" using jump_to_index_kept by fastforce
    from and_then_Some [OF rest] have "kept p1 (final_player r)"
    proof (elim disjE exE conjE)
      fix e q assume "(if restart then Some (seek 0 p1) else Some (Done p1)) = Some (Raised e q)" "r = Raised e q"
      then show ?thesis using seek_kept [of p1 0] by (auto split: if_splits)
    next
      fix p2 assume s: "(if restart then Some (seek 0 p1) else Some (Done p1)) = Some (Done p2)"
        and pl: "(if play_now then play p2 else Some (Done p2)) = Some r"
      from s have k2: "kept p1 p2" using seek_kept [of p1 0] by (auto split: if_splits simp: kept_refl)
      from pl have "kept p2 (final_player r)" using play_kept by (auto split: if_splits simp: kept_refl)
      with k2 show ?thesis by (rule kept_trans)
    qed
    with k1 show ?thesis by (rule kept_trans)
  qed
qed

lemma skip_to_next_unstopped_advance:
  assumes "0 \<le> queue_progress_index p + 1" "queue_progress_index p + 1 < int (length (queue p))"
  shows "\<exists>q. skip_to_next_unstopped True True p = Some (Done q) \<and>
           queue_progress_index q = queue_progress_index p + 1 \<and>
           current_sound_obj q = Some (queue p ! nat (queue_progress_index p + 1)) \<and>
           state q = ''play'' \<and> queue q = queue p"
  using assms
  by (simp add: skip_to_next_unstopped_def seek_def play_simps)

text \<open>
  The two branches of \<^verbatim>\<open>_cancel_estimation\<close>. With the external-stop flag set it
  returns or raises without moving the progress index, the current sound object, the
  queue, the position estimate or any sound. With the flag unset, and provided that
  the clock exists when estimation is on, it is
  \<^verbatim>\<open>skip_to_next(stop_current_playback=False)\<close> on the player with the estimate reset
  to \<open>0\<close>: if that call returns or raises, the estimate is \<open>0\<close> afterwards, the flag is
  still unset and no sound has been stopped; and when there is a next track the call
  returns with the index moved forward by one, that track current and playing.
\<close>

lemma cancel_estimation_branches:
  "(external_stop_call p \<longrightarrow>
      (\<exists>r. cancel_estimation p = Some r \<and>
           queue_progress_index (final_player r) = queue_progress_index p \<and>
           current_sound_obj (final_player r) = current_sound_obj p \<and>
           pos_estimate (final_player r) = pos_estimate p \<and>
           queue (final_player r) = queue p \<and>
           sounds (final_player r) = sounds p)) \<and>
   (\<not> external_stop_call p \<and> (estimate_position p \<longrightarrow> clock_event p \<noteq> None) \<longrightarrow>
      cancel_estimation p =
        skip_to_next True False True
          (update_pos_estimate 0
             (if estimate_position p then p\<lparr>clock_event := Some Cancelled\<rparr> else p)) \<and>
      (\<forall>r. cancel_estimation p = Some r \<longrightarrow>
           pos_estimate (final_player r) = 0 \<and>
           \<not> external_stop_call (final_player r) \<and>
           (\<forall>h. sound_state (sounds (final_player r) h) = sound_state (sounds p h) \<or>
                sound_state (sounds (final_player r) h) = ''play'')) \<and>
      (0 \<le> queue_progress_index p + 1 \<and> queue_progress_index p + 1 < int (length (queue p)) \<longrightarrow>
         (\<exists>q. cancel_estimation p = Some (Done q) \<and>
              queue_progress_index q = queue_progress_index p + 1 \<and>
              current_sound_obj q = Some (queue p ! nat (queue_progress_index p + 1)) \<and>
              state q = ''play'' \<and> pos_estimate q = 0)))"
proof (intro conjI impI)
  assume "external_stop_call p"
  then show "\<exists>r. cancel_estimation p = Some r \<and>
           queue_progress_index (final_player r) = queue_progress_index p \<and>
           current_sound_obj (final_player r) = current_sound_obj p \<and>
           pos_estimate (final_player r) = pos_estimate p \<and>
           queue (final_player r) = queue p \<and>
           sounds (final_player r) = sounds p"
    by (cases "clock_event p") (simp_all add: cancel_estimation_external cancel_clock_def)
next
  assume a: "\<not> external_stop_call p \<and> (estimate_position p \<longrightarrow> clock_event p \<noteq> None)"
  let ?q = "update_pos_estimate 0
             (if estimate_position p then p\<lparr>clock_event := Some Cancelled\<rparr> else p)"
  show eq: "cancel_estimation p = skip_to_next True False True ?q"
    using a by (auto simp: cancel_estimation_def cancel_clock_def skip_to_next_def
        update_pos_estimate_def)
  have eq': "cancel_estimation p = skip_to_next_unstopped True True ?q"
    using eq by (simp add: skip_to_next_def)
  show "\<forall>r. cancel_estimation p = Some r \<longrightarrow>
           pos_estimate (final_player r) = 0 \<and>
           \<not> external_stop_call (final_player r) \<and>
           (\<forall>h. sound_state (sounds (final_player r) h) = sound_state (sounds p h) \<or>
                sound_state (sounds (final_player r) h) = ''play'')"
  proof (intro allI impI)
    fix r assume "cancel_estimation p = Some r"
    with eq' have "kept ?q (final_player r)" by (simp add: skip_to_next_unstopped_kept)
    with a show "pos_estimate (final_player r) = 0 \<and>
           \<not> external_stop_call (final_player r) \<and>
           (\<forall>h. sound_state (sounds (final_player r) h) = sound_state (sounds p h) \<or>
                sound_state (sounds (final_player r) h) = ''play'')"
      by (cases "estimate_position p") (simp_all add: kept_def update_pos_estimate_def)
  qed
  assume n: "0 \<le> queue_progress_index p + 1 \<and> queue_progress_index p + 1 < int (length (queue p))"
  have "\<exists>q. skip_to_next_unstopped True True ?q = Some (Done q) \<and>
           queue_progress_index q = queue_progress_index ?q + 1 \<and>
           current_sound_obj q = Some (queue ?q ! nat (queue_progress_index ?q + 1)) \<and>
           state q = ''play'' \<and> queue q = queue ?q"
    using n by (intro skip_to_next_unstopped_advance)
      (cases "estimate_position p"; simp add: update_pos_estimate_def)+
  then obtain q where q: "skip_to_next_unstopped True True ?q = Some (Done q)"
    "queue_progress_index q = queue_progress_index ?q + 1"
    "current_sound_obj q = Some (queue ?q ! nat (queue_progress_index ?q + 1))"
    "state q = ''play''" by auto
  from q(1) have "kept ?q q" using skip_to_next_unstopped_kept by fastforce
  with q eq' show "\<exists>q. cancel_estimation p = Some (Done q) \<and>
              queue_progress_index q = queue_progress_index p + 1 \<and>
              current_sound_obj q = Some (queue p ! nat (queue_progress_index p + 1)) \<and>
              state q = ''play'' \<and> pos_estimate q = 0"
    by (cases "estimate_position p") (simp_all add: kept_def update_pos_estimate_def)
qed


text \<open>Both branches on a player that is playing the first of two tracks.\<close>

lemma cancel_estimation_branches_first_track:
  "external_stop_call (player_on_first_track True) \<and>
   (\<exists>r. cancel_estimation (player_on_first_track True) = Some r \<and>
        queue_progress_index (final_player r) = 0 \<and>
        current_sound_obj (final_player r) = Some 0 \<and>
        pos_estimate (final_player r) = 5) \<and>
   \<not> external_stop_call (player_on_first_track False) \<and>
   clock_event (player_on_first_track False) = Some Scheduled \<and>
   (\<exists>q. cancel_estimation (player_on_first_track False) = Some (Done q) \<and>
        queue_progress_index q = 1 \<and> current_sound_obj q = Some 1 \<and>
        state q = ''play'' \<and> pos_estimate q = 0)"
proof -
  have fields:
    "external_stop_call (player_on_first_track b) = b"
    "queue_progress_index (player_on_first_track b) = 0"
    "queue (player_on_first_track b) = [0, 1]"
    "current_sound_obj (player_on_first_track b) = Some 0"
    "pos_estimate (player_on_first_track b) = 5"
    "estimate_position (player_on_first_track b)"
    "clock_event (player_on_first_track b) = Some Scheduled" for b
    by (simp_all add: player_on_first_track_def empty_env_def)
  have a: "\<exists>r. cancel_estimation (player_on_first_track True) = Some r \<and>
        queue_progress_index (final_player r) = 0 \<and>
        current_sound_obj (final_player r) = Some 0 \<and>
        pos_estimate (final_player r) = 5"
    using cancel_estimation_branches [of "player_on_first_track True"] by (simp add: fields) blast
  have b: "\<exists>q. cancel_estimation (player_on_first_track False) = Some (Done q) \<and>
        queue_progress_index q = 1 \<and> current_sound_obj q = Some 1 \<and>
        state q = ''play'' \<and> pos_estimate q = 0"
    using cancel_estimation_branches [of "player_on_first_track False"]
    by (simp (no_asm_use) add: fields) blast
  from a b show ?thesis
    by (simp add: fields)
qed

text \<open>
  The handler looks at the clock before it looks at the flag. The constructor leaves
  \<^verbatim>\<open>_clock_event\<close> at \<^verbatim>\<open>None\<close> and only an \<^verbatim>\<open>on_play\<close> notification replaces it,
  so with estimation on and no clock yet the handler raises at
  \<^verbatim>\<open>self._clock_event.cancel()\<close> and changes nothing, flag or no flag.
\<close>

lemma cancel_estimation_no_clock:
  assumes "estimate_position p" "clock_event p = None"
  shows "cancel_estimation p = Some (Raised AttributeError p)"
  using assms by (simp add: cancel_estimation_def cancel_clock_def)

text \<open>\<^verbatim>\<open>_jump_to_index\<close> returns or raises in every state but the one in which
  \<^verbatim>\<open>play\<close> cannot return: an empty queue with the loop flag set.\<close>

lemma jump_to_index_returns:
  assumes "\<not> (queue p = [] \<and> loop p)"
  shows "\<exists>y. jump_to_index i p = Some y"
proof (cases "set_current_sound_obj (p\<lparr>queue_progress_index := i\<rparr>)")
  case (Done q)
  then show ?thesis by (simp add: jump_to_index_unfold)
next
  case (Raised e q)
  then have q: "q = p\<lparr>queue_progress_index := i\<rparr>"
    by (auto simp: set_current_sound_obj_def split: sum.splits)
  show ?thesis
  proof (cases "e = IndexError \<and> loop q")
    case False
    with Raised show ?thesis by (auto simp: jump_to_index_unfold)
  next
    case True
    with q assms
    have "\<exists>y. play (q\<lparr>queue_progress_index := - 1, current_sound_obj := None\<rparr>) = Some y"
      by (simp add: play_returns_iff)
    with Raised True show ?thesis by (simp add: jump_to_index_unfold)
  qed
qed

lemma jump_to_index_stuck: "queue p = [] \<Longrightarrow> loop p \<Longrightarrow> jump_to_index i p = None"
  using run_returns_not_stuck [of "JumpToIndex i" p] unfolding jump_to_index_def stuck_def
  by (cases "run (JumpToIndex i) p") auto

text \<open>
  \<^verbatim>\<open>stop\<close> sets the flag back only after the handle's \<^verbatim>\<open>stop()\<close> has returned. A
  \<^verbatim>\<open>stop\<close> that raises (there is no current sound object, or the handler has no
  clock to cancel) leaves the flag set, so that the handler takes every later end of a
  track for an explicit stop.
\<close>

lemma dispatch_cancel_flag:
  assumes "external_stop_call p" "dispatch n cancel_estimation p = Some r"
  shows "external_stop_call (final_player r)"
  using assms
proof (induction n arbitrary: p)
  case 0
  then show ?case by auto
next
  case (Suc n)
  show ?case
  proof (cases "estimate_position p \<and> clock_event p = None")
    case True
    with Suc.prems show ?thesis by (auto simp: cancel_estimation_no_clock)
  next
    case False
    let ?q = "if estimate_position p then p\<lparr>clock_event := Some Cancelled\<rparr> else p"
    from False Suc.prems(1) have "cancel_estimation p = Some (Done ?q)"
      by (auto simp: cancel_estimation_external cancel_clock_def)
    with Suc.prems have "dispatch n cancel_estimation ?q = Some r" "external_stop_call ?q"
      by simp_all
    from Suc.IH [OF this(2) this(1)] show ?thesis .
  qed
qed

lemma stop_raises_keeps_flag:
  assumes "stop p = Some (Raised e q)"
  shows "external_stop_call q"
proof (cases "current_sound_obj p")
  case None
  with assms show ?thesis by (auto simp: stop_def)
next
  case (Some h)
  let ?p1 = "update_sound h (\<lambda>s. s\<lparr>sound_state := ''stop''\<rparr>) (p\<lparr>external_stop_call := True\<rparr>)"
  from Some assms
  have "dispatch (on_stop_bound (sounds p h)) cancel_estimation ?p1 = Some (Raised e q)"
    by (cases "dispatch (on_stop_bound (sounds p h)) cancel_estimation ?p1")
       (auto simp: stop_def sound_stop_def update_sound_def and_then_def split: outcome.splits)
  moreover have "external_stop_call ?p1" by (simp add: update_sound_def)
  ultimately show ?thesis using dispatch_cancel_flag by fastforce
qed

text \<open>A \<^verbatim>\<open>stop()\<close> before anything was played raises and leaves the flag set; the
  track that is played next comes to its end and the handler does not advance: the
  player stays on the first track and the second one is never started.\<close>

lemma natural_end_after_failed_stop:
  "\<exists>p0 p1 p2 p3.
     AudioPlayer [PyStr ''a.mp3'', PyStr ''b.mp3''] 1 False True 1 (empty_env (\<lambda>s. True))
       = Done p0 \<and>
     stop p0 = Some (Raised AttributeError p1) \<and> external_stop_call p1 \<and>
     play p1 = Some (Done p2) \<and> queue_progress_index p2 = 0 \<and>
     sound_state (sounds p2 0) = ''play'' \<and>
     sound_stop 0 p2 = Some (Done p3) \<and>
     queue_progress_index p3 = 0 \<and> current_sound_obj p3 = Some 0 \<and>
     sound_state (sounds p3 0) = ''stop'' \<and> sound_state (sounds p3 1) = ''stop''"
  by (simp add: load_simps play_simps stop_simps)

text \<open>
  Claim C1 says that the handler of the on-play-stopped notification leaves the queue
  and the estimate alone when the external-stop flag is set and, when it is unset (the
  natural end of a track), resets the estimate to \<open>0\<close> and advances with
  \<^verbatim>\<open>skip_to_next(stop_current_playback=False)\<close>. The first half holds in every state
  (lemma \<open>cancel_estimation_branches\<close>). The second half fails where the handler has no
  clock to cancel: \<^verbatim>\<open>_cancel_estimation\<close> calls \<^verbatim>\<open>self._clock_event.cancel()\<close>
  first, and \<^verbatim>\<open>_clock_event\<close> is \<^verbatim>\<open>None\<close> until a sound of the queue has sent
  \<^verbatim>\<open>on_play\<close>. A sound object that is already playing when it is handed to
  \<^verbatim>\<open>AudioPlayer([a, b])\<close> reaches its end with the flag unset; the handler raises
  \<^verbatim>\<open>AttributeError\<close>, and the player is where it was: nothing has advanced, while
  the \<^verbatim>\<open>skip_to_next(stop_current_playback=False)\<close> that the handler did not reach
  returns from that state with a track playing.
\<close>

theorem track_end_without_clock_does_not_advance:
  "\<exists>e1 e2 e3 p0 p1 p2.
     SoundLoader_load ''a.mp3'' (empty_env (\<lambda>s. True)) = (Some 0, e1) \<and>
     SoundLoader_load ''b.mp3'' e1 = (Some 1, e2) \<and>
     sound_play 0 e2 = Some (Done e3) \<and>
     AudioPlayer [PySound 0, PySound 1] 1 False True 1 e3 = Done p0 \<and>
     \<not> external_stop_call p0 \<and> estimate_position p0 \<and> clock_event p0 = None \<and>
     queue p0 = [0, 1] \<and> queue_progress_index p0 = - 1 \<and>
     sound_state (sounds p0 0) = ''play'' \<and>
     cancel_estimation p0 = Some (Raised AttributeError p0) \<and>
     sound_stop 0 p0 = Some (Raised AttributeError p1) \<and>
     queue_progress_index p1 = - 1 \<and> current_sound_obj p1 = None \<and>
     state p1 = ''queue empty'' \<and> pos_estimate p1 = pos_estimate p0 \<and>
     sound_state (sounds p1 0) = ''stop'' \<and> sound_state (sounds p1 1) = ''stop'' \<and>
     skip_to_next True False True (update_pos_estimate 0 p1) = Some (Done p2) \<and>
     queue_progress_index p2 = 0 \<and> current_sound_obj p2 = Some 0 \<and> state p2 = ''play''"
  by (simp add: load_simps play_simps stop_simps skip_simps update_pos_estimate_def)

text \<open>\<^verbatim>\<open>skip_to_next\<close> from the last index, after its optional \<^verbatim>\<open>stop()\<close>.\<close>

lemma skip_unstopped_end_loop:
  assumes "queue p \<noteq> []" "queue_progress_index p = int (length (queue p)) - 1" "loop p"
  shows "\<exists>q. skip_to_next_unstopped play_now restart p = Some (Done q) \<and>
           queue_progress_index q = 0 \<and> current_sound_obj q = Some (queue p ! 0) \<and>
           state q = ''play'' \<and> sound_state (sounds q (queue p ! 0)) = ''play''"
  using assms
  by (cases play_now; cases restart)
     (simp_all add: skip_to_next_unstopped_def seek_def play_simps)

lemma skip_unstopped_end_no_loop:
  assumes "queue_progress_index p = int (length (queue p)) - 1" "\<not> loop p"
  shows "skip_to_next_unstopped play_now True p =
           Some (Raised AttributeError (p\<lparr>queue_progress_index := - 1, current_sound_obj := None\<rparr>))"
    and "skip_to_next_unstopped False False p =
           Some (Done (p\<lparr>queue_progress_index := - 1, current_sound_obj := None\<rparr>))"
  using assms
  by (simp_all add: skip_to_next_unstopped_def seek_def play_simps)

lemma skip_unstopped_end_wraps:
  assumes "queue p \<noteq> []" "queue_progress_index p = int (length (queue p)) - 1" "\<not> loop p"
  shows "\<exists>q. skip_to_next_unstopped True False p = Some (Done q) \<and>
           queue_progress_index q = 0 \<and> current_sound_obj q = Some (queue p ! 0) \<and>
           state q = ''play''"
  using assms
  by (simp_all add: skip_to_next_unstopped_def seek_def play_simps)


lemma stop_returns:
  assumes "current_sound_obj p = Some h" "estimate_position p \<Longrightarrow> clock_event p \<noteq> None"
  shows "\<exists>p1. stop p = Some (Done p1) \<and> queue p1 = queue p \<and>
           queue_progress_index p1 = queue_progress_index p \<and> loop p1 = loop p \<and>
           current_sound_obj p1 = current_sound_obj p \<and> pos_estimate p1 = pos_estimate p \<and>
           state p1 = ''stop'' \<and> \<not> external_stop_call p1"
  by (simp add: stop_eq [OF assms] update_sound_def)

text \<open>
  \<^verbatim>\<open>skip_to_next\<close> on the last index of a non-empty queue, when the \<^verbatim>\<open>stop()\<close> it
  may start with returns (there is a current sound object and, with estimation on, a
  clock to cancel). With the loop flag set it returns with the player on index \<open>0\<close>,
  that track current and playing. With the loop flag off and
  \<^verbatim>\<open>restart_audio_position\<close> on it raises the \<^verbatim>\<open>AttributeError\<close> of \<^verbatim>\<open>seek(0)\<close>
  on \<^verbatim>\<open>None\<close>, the index at \<open>-1\<close> and no current sound object; with both
  \<^verbatim>\<open>restart_audio_position\<close> and \<^verbatim>\<open>play_immediately\<close> off it returns in that
  state; and with \<^verbatim>\<open>restart_audio_position\<close> off and \<^verbatim>\<open>play_immediately\<close> on it
  goes round to index \<open>0\<close> as if the loop flag were set.
\<close>

lemma skip_to_next_end_of_queue:
  assumes "queue p \<noteq> []" "queue_progress_index p = int (length (queue p)) - 1"
    and "stop_current_playback \<longrightarrow>
           current_sound_obj p \<noteq> None \<and> (estimate_position p \<longrightarrow> clock_event p \<noteq> None)"
  shows "if loop p
         then (\<exists>q. skip_to_next play_immediately stop_current_playback restart_audio_position p
                      = Some (Done q) \<and>
                    queue_progress_index q = 0 \<and> current_sound_obj q = Some (queue p ! 0) \<and>
                    state q = ''play'' \<and> sound_state (sounds q (queue p ! 0)) = ''play'')
         else if restart_audio_position \<or> \<not> play_immediately
         then (\<exists>q. skip_to_next play_immediately stop_current_playback restart_audio_position p
                      = Some (if restart_audio_position then Raised AttributeError q else Done q) \<and>
                    queue_progress_index q = - 1 \<and> current_sound_obj q = None)
         else (\<exists>q. skip_to_next play_immediately stop_current_playback restart_audio_position p
                      = Some (Done q) \<and>
                    queue_progress_index q = 0 \<and> current_sound_obj q = Some (queue p ! 0) \<and>
                    state q = ''play'')"
proof -
  obtain p1 where p1:
    "skip_to_next play_immediately stop_current_playback restart_audio_position p
       = skip_to_next_unstopped play_immediately restart_audio_position p1"
    "queue p1 = queue p" "queue_progress_index p1 = queue_progress_index p" "loop p1 = loop p"
  proof (cases stop_current_playback)
    case False
    then show ?thesis using that [of p] by (simp add: skip_to_next_def)
  next
    case True
    with assms(3) obtain h where "current_sound_obj p = Some h"
      and "estimate_position p \<Longrightarrow> clock_event p \<noteq> None" by auto
    from stop_returns [OF this] obtain q where "stop p = Some (Done q)" "queue q = queue p"
      "queue_progress_index q = queue_progress_index p" "loop q = loop p" by auto
    with True show ?thesis using that [of q] by (simp add: skip_to_next_def)
  qed
  from assms p1 have e: "queue p1 \<noteq> []" "queue_progress_index p1 = int (length (queue p1)) - 1"
    by simp_all
  show ?thesis
  proof (cases "loop p")
    case True
    with p1 have "loop p1" by simp
    from skip_unstopped_end_loop [OF e this, of play_immediately restart_audio_position] True p1
    show ?thesis by simp
  next
    case False
    with p1 have nl: "\<not> loop p1" by simp
    show ?thesis
    proof (cases restart_audio_position)
      case True
      with False p1 skip_unstopped_end_no_loop(1) [OF e(2) nl, of play_immediately]
      show ?thesis by simp
    next
      case nr: False
      show ?thesis
      proof (cases play_immediately)
        case True
        with False nr p1 skip_unstopped_end_wraps [OF e nl] show ?thesis by simp
      next
        case False
        with \<open>\<not> loop p\<close> nr p1 skip_unstopped_end_no_loop(2) [OF e(2) nl] show ?thesis by simp
      qed
    qed
  qed
qed

text \<open>When the \<^verbatim>\<open>stop()\<close> raises, \<^verbatim>\<open>skip_to_next\<close> ends there. On a track that was
  loaded without being played there is no clock, the \<^verbatim>\<open>stop()\<close> raises in the
  handler, and the default \<^verbatim>\<open>skip_to_next()\<close> leaves the player on that track.\<close>

lemma skip_to_next_stop_raises:
  assumes "stop p = Some (Raised e q)"
  shows "skip_to_next play_now True restart p = Some (Raised e q)"
  using assms by (simp add: skip_to_next_def)

lemma skip_to_next_on_unplayed_track:
  "\<exists>p0 p1 p2.
     AudioPlayer [PyStr ''a.mp3''] 1 False True 1 (empty_env (\<lambda>s. True)) = Done p0 \<and>
     skip_to_next False False True p0 = Some (Done p1) \<and>
     queue_progress_index p1 = 0 \<and> length (queue p1) = 1 \<and> clock_event p1 = None \<and>
     skip_to_next True True True p1 = Some (Raised AttributeError p2) \<and>
     queue_progress_index p2 = 0 \<and> current_sound_obj p2 = Some 0 \<and>
     external_stop_call p2"
  by (simp add: load_simps play_simps stop_simps skip_simps)

text \<open>
  Claim C3 says that \<^verbatim>\<open>skip_to_next\<close> on the last index of a non-empty queue, with
  the loop flag off, leaves the progress index at \<open>-1\<close> and no current sound object.
  \<^verbatim>\<open>_jump_to_index\<close> does reset both, and starts again with \<^verbatim>\<open>play()\<close> only under
  \<^verbatim>\<open>if self._loop:\<close>; but \<^verbatim>\<open>skip_to_next\<close> goes on after it. After
  \<^verbatim>\<open>AudioPlayer(["a.mp3", "b.mp3"]); play(); skip_to_next()\<close> the player is on the last
  track with the loop flag off. There \<^verbatim>\<open>skip_to_next(restart_audio_position=False)\<close>
  reaches its final \<^verbatim>\<open>self.play()\<close>, which finds no current sound object and jumps to
  index \<open>0\<close>: the player ends on the first track, playing. The default
  \<^verbatim>\<open>skip_to_next()\<close> leaves the index at \<open>-1\<close> and no current sound object, but only
  because \<^verbatim>\<open>self.seek(0)\<close> raises \<^verbatim>\<open>AttributeError\<close> on \<^verbatim>\<open>None\<close> before that
  \<^verbatim>\<open>self.play()\<close>.
\<close>

theorem skip_to_next_wraps_without_loop:
  "\<exists>p0 p1 p2 p3 p4.
     AudioPlayer [PyStr ''a.mp3'', PyStr ''b.mp3''] 1 False True 1 (empty_env (\<lambda>s. True))
       = Done p0 \<and>
     play p0 = Some (Done p1) \<and>
     skip_to_next True True True p1 = Some (Done p2) \<and>
     queue_progress_index p2 = 1 \<and> length (queue p2) = 2 \<and> \<not> loop p2 \<and>
     current_sound_obj p2 = Some 1 \<and>
     skip_to_next True True False p2 = Some (Done p3) \<and>
     queue_progress_index p3 = 0 \<and> current_sound_obj p3 = Some 0 \<and>
     state p3 = ''play'' \<and> sound_state (sounds p3 0) = ''play'' \<and> \<not> loop p3 \<and>
     skip_to_next True True True p2 = Some (Raised AttributeError p4) \<and>
     queue_progress_index p4 = - 1 \<and> current_sound_obj p4 = None"
  by (simp add: load_simps play_simps stop_simps skip_simps)


section \<open>The progress index under the operations\<close>

text \<open>
  The operations that do not empty the queue keep the progress index valid, and no
  operation takes it below \<open>-1\<close>, whether the calls return or raise.
\<close>

lemma play_current_place:
  "play_current p = Some r \<Longrightarrow> same_place p (final_player r)"
  by (cases "current_sound_obj p")
     (auto simp: play_current_def sound_play_eq same_place_def Let_def update_sound_def
        initialize_estimation_def start_clock_def split: if_splits)

lemma index_valid_place: "same_place p q \<Longrightarrow> index_valid p \<Longrightarrow> index_valid q"
  by (simp add: same_place_def index_valid_def)

lemma run_lands_well:
  assumes "run c p = Some r"
  shows "lands_well c p (final_player r)"
proof (rule run.raw_induct [where P = "\<lambda>c p r. lands_well c p (final_player r)", OF _ assms])
  fix f c p r
  assume IH: "\<And>c p r. f c p = Some r \<Longrightarrow> lands_well c p (final_player r)"
    and step: "(case c of
        Play \<Rightarrow>
          Option.bind
            (if current_sound_obj p = None then f (JumpToIndex 0) p else Some (Done p))
            (\<lambda>r. case r of Done q \<Rightarrow> play_current q | Raised e q \<Rightarrow> Some (Raised e q))
      | JumpToIndex index \<Rightarrow>
          (case set_current_sound_obj (p\<lparr>queue_progress_index := index\<rparr>) of
             Done q \<Rightarrow> Some (Done q)
           | Raised e q \<Rightarrow>
               (if e = IndexError
                then (if loop q
                      then f Play (q\<lparr>queue_progress_index := - 1, current_sound_obj := None\<rparr>)
                      else Some (Done (q\<lparr>queue_progress_index := - 1, current_sound_obj := None\<rparr>)))
                else Some (Raised e q)))) = Some r"
  show "lands_well c p (final_player r)"
  proof (cases c)
    case Play
    show ?thesis
    proof (cases "current_sound_obj p = None")
      case False
      with Play step have "same_place p (final_player r)" by (simp add: play_current_place)
      with Play show ?thesis by (simp add: lands_well_def same_place_def index_valid_def)
    next
      case True
      with Play step obtain r1 where r1: "f (JumpToIndex 0) p = Some r1"
        and r: "(case r1 of Done q \<Rightarrow> play_current q | Raised e q \<Rightarrow> Some (Raised e q)) = Some r"
        by (auto simp: bind_eq_Some_conv)
      from IH [OF r1] have k1: "lands_well (JumpToIndex 0) p (final_player r1)" .
      have "same_place (final_player r1) (final_player r)"
        using r by (cases r1) (simp_all add: play_current_place, simp add: same_place_def)
      with k1 Play show ?thesis
        by (auto simp: lands_well_def same_place_def index_valid_def)
    qed
  next
    case (JumpToIndex i)
    let ?q = "p\<lparr>queue_progress_index := - 1, current_sound_obj := None\<rparr>"
    show ?thesis
      using JumpToIndex step IH [of Play ?q r]
      by (auto simp: set_current_sound_obj_def py_index_def lands_well_def index_valid_def
            split: sum.splits if_splits)
  qed
qed


lemma play_lands:
  assumes "play p = Some r"
  shows "queue (final_player r) = queue p"
    and "index_valid p \<Longrightarrow> index_valid (final_player r)"
    and "- 1 \<le> queue_progress_index p \<Longrightarrow> - 1 \<le> queue_progress_index (final_player r)"
  using run_lands_well [of Play p r] assms by (simp_all add: play_def lands_well_def)

lemma jump_lands:
  assumes "jump_to_index i p = Some r"
  shows "queue (final_player r) = queue p"
    and "0 \<le> i \<Longrightarrow> index_valid (final_player r)"
    and "- 1 \<le> i \<Longrightarrow> - 1 \<le> queue_progress_index (final_player r)"
  using run_lands_well [of "JumpToIndex i" p r] assms
  by (simp_all add: jump_to_index_def lands_well_def)

lemma seek_place: "same_place p (final_player (seek x p))"
  by (cases "current_sound_obj p") (simp_all add: seek_def same_place_def update_sound_def)

text \<open>\<^verbatim>\<open>skip_to_next\<close> after its \<^verbatim>\<open>stop()\<close>, and with it the handler when the flag
  is unset and the clock is in place, returns or raises in every state but the one in
  which \<^verbatim>\<open>play\<close> cannot return; in that state it never returns.\<close>

lemma skip_to_next_unstopped_returns_iff:
  "(\<exists>y. skip_to_next_unstopped play_now restart p = Some y) = (\<not> (queue p = [] \<and> loop p))"
proof (cases "queue p = [] \<and> loop p")
  case True
  then show ?thesis by (simp add: skip_to_next_unstopped_def jump_to_index_stuck)
next
  case False
  have "\<exists>y. skip_to_next_unstopped play_now restart p = Some y"
  proof (cases "queue p = []")
    case True
    with False have "\<not> loop p" by simp
    with True show ?thesis
      by (cases play_now; cases restart)
         (simp_all add: skip_to_next_unstopped_def seek_def play_simps)
  next
    case nonempty: False
    from jump_to_index_returns [OF False]
    obtain r where r: "jump_to_index (queue_progress_index p + 1) p = Some r" by blast
    show ?thesis
    proof (cases r)
      case (Raised e q)
      with r show ?thesis by (simp add: skip_to_next_unstopped_def)
    next
      case (Done p1)
      with jump_lands(1) [OF r] nonempty have q1: "queue p1 \<noteq> []" by simp
      have pl: "\<exists>y. play p2 = Some y" if "queue p2 = queue p1" for p2
        using that q1 by (simp add: play_returns_iff)
      show ?thesis
      proof (cases "restart")
        case False
        with r Done pl [of p1] show ?thesis
          by (cases play_now) (simp_all add: skip_to_next_unstopped_def)
      next
        case True
        show ?thesis
        proof (cases "seek 0 p1")
          case (Raised e q)
          with r Done True show ?thesis by (simp add: skip_to_next_unstopped_def)
        next
          case seek_done: (Done p2)
          with seek_place [of p1 0] have "queue p2 = queue p1" by (simp add: same_place_def)
          from pl [OF this] r Done True seek_done show ?thesis
            by (cases play_now) (simp_all add: skip_to_next_unstopped_def)
        qed
      qed
    qed
  qed
  with False show ?thesis by simp
qed

lemma cancel_estimation_returns_iff:
  assumes "\<not> external_stop_call p" "estimate_position p \<longrightarrow> clock_event p \<noteq> None"
  shows "(\<exists>y. cancel_estimation p = Some y) = (\<not> (queue p = [] \<and> loop p))"
proof -
  let ?q = "update_pos_estimate 0
             (if estimate_position p then p\<lparr>clock_event := Some Cancelled\<rparr> else p)"
  have "cancel_estimation p = skip_to_next_unstopped True True ?q"
    using assms by (auto simp: cancel_estimation_def cancel_clock_def update_pos_estimate_def)
  moreover have "queue ?q = queue p" "loop ?q = loop p"
    by (simp_all add: update_pos_estimate_def)
  ultimately show ?thesis
    using skip_to_next_unstopped_returns_iff [of True True ?q] by simp
qed

lemma keeps_index_refl: "keeps_index p p"
  by (simp add: keeps_index_def)

lemma keeps_index_trans: "keeps_index p q \<Longrightarrow> keeps_index q r \<Longrightarrow> keeps_index p r"
  by (simp add: keeps_index_def)

lemma same_place_keeps: "same_place p q \<Longrightarrow> keeps_index p q"
  by (simp add: same_place_def keeps_index_def index_valid_def)

lemma play_keeps: "play p = Some r \<Longrightarrow> keeps_index p (final_player r)"
  using play_lands [of p r] by (simp add: keeps_index_def)

lemma and_then_keeps:
  assumes "and_then x f = Some r"
    and "\<And>r1. x = Some r1 \<Longrightarrow> keeps_index p (final_player r1)"
    and "\<And>q r2. x = Some (Done q) \<Longrightarrow> f q = Some r2 \<Longrightarrow> keeps_index q (final_player r2)"
  shows "keeps_index p (final_player r)"
proof -
  from and_then_Some [OF assms(1)] show ?thesis
  proof (elim disjE exE conjE)
    fix e q assume "x = Some (Raised e q)" "r = Raised e q"
    with assms(2) [of "Raised e q"] show ?thesis by simp
  next
    fix q assume x: "x = Some (Done q)" and f: "f q = Some r"
    from assms(2) [OF x] have "keeps_index p q" by simp
    with assms(3) [OF x f] show ?thesis by (blast intro: keeps_index_trans)
  qed
qed

lemma seek_then_play_keeps:
  assumes "and_then (if restart then Some (seek 0 p1) else Some (Done p1))
             (\<lambda>p2. if play_now then play p2 else Some (Done p2)) = Some r"
  shows "keeps_index p1 (final_player r)"
proof (rule and_then_keeps [OF assms])
  fix r1 assume "(if restart then Some (seek 0 p1) else Some (Done p1)) = Some r1"
  then show "keeps_index p1 (final_player r1)"
    using seek_place [of p1 0] by (auto split: if_splits simp: same_place_keeps keeps_index_refl)
next
  fix q r2 assume "(if play_now then play q else Some (Done q)) = Some r2"
  then show "keeps_index q (final_player r2)"
    by (auto split: if_splits simp: play_keeps keeps_index_refl)
qed

lemma skip_to_next_unstopped_keeps:
  assumes "skip_to_next_unstopped play_now restart p = Some r"
  shows "keeps_index p (final_player r)"
proof (rule and_then_keeps [OF assms [unfolded skip_to_next_unstopped_def]])
  fix r1 assume "jump_to_index (queue_progress_index p + 1) p = Some r1"
  from jump_lands [OF this] show "keeps_index p (final_player r1)"
    by (auto simp: keeps_index_def index_valid_def)
next
  fix q r2
  assume "and_then (if restart then Some (seek 0 q) else Some (Done q))
             (\<lambda>p2. if play_now then play p2 else Some (Done p2)) = Some r2"
  then show "keeps_index q (final_player r2)" by (rule seek_then_play_keeps)
qed


lemma cancel_clock_place: "same_place p (final_player (cancel_clock p))"
  by (cases "clock_event p") (simp_all add: cancel_clock_def same_place_def)

lemma cancel_estimation_keeps:
  assumes "cancel_estimation p = Some r"
  shows "keeps_index p (final_player r)"
proof (rule and_then_keeps [OF assms [unfolded cancel_estimation_def]])
  fix r1 assume "(if estimate_position p then Some (cancel_clock p) else Some (Done p)) = Some r1"
  then show "keeps_index p (final_player r1)"
    using cancel_clock_place [of p]
    by (auto split: if_splits simp: same_place_keeps keeps_index_refl)
next
  fix q r2
  assume "(if \<not> external_stop_call q
           then skip_to_next_unstopped True True (update_pos_estimate 0 q)
           else Some (Done q)) = Some r2"
  then show "keeps_index q (final_player r2)"
    using skip_to_next_unstopped_keeps [of True True "update_pos_estimate 0 q" r2]
    by (auto split: if_splits simp: keeps_index_refl keeps_index_def index_valid_def
          update_pos_estimate_def)
qed

lemma dispatch_keeps:
  assumes "\<And>p r. callback p = Some r \<Longrightarrow> keeps_index p (final_player r)"
    and "dispatch n callback p = Some r"
  shows "keeps_index p (final_player r)"
  using assms(2)
proof (induction n arbitrary: p r)
  case 0
  then show ?case by (auto simp: keeps_index_refl)
next
  case (Suc n)
  from Suc.prems have "and_then (callback p) (dispatch n callback) = Some r" by simp
  then show ?case
    by (rule and_then_keeps) (auto intro: assms(1) Suc.IH)
qed

lemma sound_stop_keeps:
  assumes "sound_stop h p = Some r"
  shows "keeps_index p (final_player r)"
proof -
  let ?q = "update_sound h (\<lambda>s. s\<lparr>sound_state := ''stop''\<rparr>) p"
  from assms have "dispatch (on_stop_bound (sounds p h)) cancel_estimation ?q = Some r"
    by (simp add: sound_stop_def)
  from dispatch_keeps [OF cancel_estimation_keeps this]
  show ?thesis by (auto simp: keeps_index_def index_valid_def update_sound_def)
qed

lemma stop_keeps:
  assumes "stop p = Some r"
  shows "keeps_index p (final_player r)"
proof (cases "current_sound_obj p")
  case None
  with assms show ?thesis by (auto simp: stop_def keeps_index_def index_valid_def)
next
  case (Some h)
  let ?p1 = "p\<lparr>external_stop_call := True\<rparr>"
  from assms Some have a: "and_then (sound_stop h ?p1)
      (\<lambda>p2. Some (Done (p2\<lparr>state := ''stop'', external_stop_call := False\<rparr>))) = Some r"
    by (simp add: stop_def)
  have "keeps_index ?p1 (final_player r)"
  proof (rule and_then_keeps [OF a])
    fix r1 assume "sound_stop h ?p1 = Some r1"
    then show "keeps_index ?p1 (final_player r1)" by (rule sound_stop_keeps)
  next
    fix q r2 assume "Some (Done (q\<lparr>state := ''stop'', external_stop_call := False\<rparr>)) = Some r2"
    then show "keeps_index q (final_player r2)"
      by (auto simp: keeps_index_def index_valid_def)
  qed
  then show ?thesis by (auto simp: keeps_index_def index_valid_def)
qed

lemma skip_to_next_keeps:
  assumes "skip_to_next a b c p = Some r"
  shows "keeps_index p (final_player r)"
proof (rule and_then_keeps [OF assms [unfolded skip_to_next_def]])
  fix r1 assume "(if b then stop p else Some (Done p)) = Some r1"
  then show "keeps_index p (final_player r1)"
    by (auto split: if_splits simp: stop_keeps keeps_index_refl)
next
  fix q r2 assume "skip_to_next_unstopped a c q = Some r2"
  then show "keeps_index q (final_player r2)" by (rule skip_to_next_unstopped_keeps)
qed

lemma normalize_index_range:
  "normalize_index xs i = Inr j \<Longrightarrow> 0 \<le> j \<and> j < int (length xs)"
  by (auto simp: normalize_index_def Let_def split: if_splits)

lemma skip_to_previous_keeps:
  assumes "skip_to_previous a b c p = Some r"
  shows "keeps_index p (final_player r)"
proof (rule and_then_keeps [OF assms [unfolded skip_to_previous_def]])
  fix r1 assume "(if b then stop p else Some (Done p)) = Some r1"
  then show "keeps_index p (final_player r1)"
    by (auto split: if_splits simp: stop_keeps keeps_index_refl)
next
  fix q r2
  assume s: "(case normalize_index (queue q) (queue_progress_index q - 1) of
           Inl e \<Rightarrow> Some (Raised e q)
         | Inr index \<Rightarrow>
             and_then (jump_to_index index q) (\<lambda>p1.
             and_then (if c then Some (seek 0 p1) else Some (Done p1)) (\<lambda>p2.
             if a then play p2 else Some (Done p2)))) = Some r2"
  show "keeps_index q (final_player r2)"
  proof (cases "normalize_index (queue q) (queue_progress_index q - 1)")
    case (Inl e)
    with s show ?thesis by (auto simp: keeps_index_refl)
  next
    case (Inr i)
    from normalize_index_range [OF Inr] have i: "0 \<le> i" by simp
    from s Inr have t: "and_then (jump_to_index i q) (\<lambda>p1.
             and_then (if c then Some (seek 0 p1) else Some (Done p1)) (\<lambda>p2.
             if a then play p2 else Some (Done p2))) = Some r2" by simp
    show ?thesis
    proof (rule and_then_keeps [OF t])
      fix r1 assume "jump_to_index i q = Some r1"
      from jump_lands [OF this] i show "keeps_index q (final_player r1)"
        by (auto simp: keeps_index_def index_valid_def)
    next
      fix q' r3
      assume "and_then (if c then Some (seek 0 q') else Some (Done q'))
             (\<lambda>p2. if a then play p2 else Some (Done p2)) = Some r3"
      then show "keeps_index q' (final_player r3)" by (rule seek_then_play_keeps)
    qed
  qed
qed


lemma load_one_grows:
  "\<exists>hs. queue (final_player (load_one ign v p)) = queue p @ hs \<and>
        queue_progress_index (final_player (load_one ign v p)) = queue_progress_index p"
  by (auto simp: load_one_def as_sound_obj_def SoundLoader_load_def configure_sound_obj_def
        update_sound_def split: py_value.splits)

lemma load_args_grows:
  "\<exists>hs. queue (final_player (load_args ign vs p)) = queue p @ hs \<and>
        queue_progress_index (final_player (load_args ign vs p)) = queue_progress_index p"
proof (induction vs arbitrary: p)
  case Nil
  then show ?case by simp
next
  case (Cons v vs)
  show ?case
  proof (cases "load_one ign v p")
    case (Raised e q)
    with load_one_grows [of ign v p] show ?thesis by simp
  next
    case (Done q)
    with load_one_grows [of ign v p] obtain hs where q: "queue q = queue p @ hs"
      "queue_progress_index q = queue_progress_index p" by auto
    from Cons.IH [of q] obtain hs' where
      "queue (final_player (load_args ign vs q)) = queue q @ hs'"
      "queue_progress_index (final_player (load_args ign vs q)) = queue_progress_index q"
      by auto
    with q Done show ?thesis by simp
  qed
qed

lemma load_grows:
  "\<exists>hs. queue (final_player (load vs clear ign p)) = (if clear then [] else queue p) @ hs \<and>
        queue_progress_index (final_player (load vs clear ign p)) = queue_progress_index p"
proof -
  let ?p = "if clear then clear_queue p else p"
  from load_args_grows [of ign vs ?p] obtain hs where
    "queue (final_player (load_args ign vs ?p)) = queue ?p @ hs"
    "queue_progress_index (final_player (load_args ign vs ?p)) = queue_progress_index ?p"
    by auto
  then show ?thesis
    by (cases "load_args ign vs ?p") (auto simp: load_def clear_queue_def)
qed

lemma set_volume_place: "same_place p (final_player (set_volume v p))"
proof -
  have fold_place:
    "same_place p0
       (fold (\<lambda>sound_obj q. update_sound sound_obj (\<lambda>s. s\<lparr>sound_volume := volume q\<rparr>) q) hs p0)"
    for hs p0
    by (induction hs arbitrary: p0)
       (simp_all add: same_place_def update_sound_def)
  show ?thesis
    using fold_place [of "p\<lparr>volume := number_value v\<rparr>" "queue p"]
    by (auto simp: set_volume_def same_place_def Let_def split: sum.splits)
qed

text \<open>No operation takes the index below \<open>-1\<close>.\<close>

lemma perform_floor:
  assumes "perform x p = Some r" "- 1 \<le> queue_progress_index p"
  shows "- 1 \<le> queue_progress_index (final_player r)"
proof (cases x)
  case (Load vs clear ign)
  with assms load_grows [of vs clear ign p] show ?thesis by auto
next
  case ClearQueue
  with assms show ?thesis by (auto simp: clear_queue_def)
next
  case Unload
  with assms show ?thesis by (auto simp: unload_def update_sound_def Let_def split: option.splits)
next
  case PlayOp
  with assms play_keeps [of p r] show ?thesis by (simp add: keeps_index_def)
next
  case StopOp
  with assms stop_keeps [of p r] show ?thesis by (simp add: keeps_index_def)
next
  case (SkipToNext a b c)
  with assms skip_to_next_keeps [of a b c p r] show ?thesis by (simp add: keeps_index_def)
next
  case (SkipToPrevious a b c)
  with assms skip_to_previous_keeps [of a b c p r] show ?thesis by (simp add: keeps_index_def)
next
  case (SetVolume v)
  with assms set_volume_place [of p v] show ?thesis by (auto simp: same_place_def)
next
  case (TrackEnded h)
  with assms sound_stop_keeps [of h p r] show ?thesis by (simp add: keeps_index_def)
qed

text \<open>The operations that do not empty the queue keep the index valid.\<close>

lemma perform_index_valid:
  assumes "perform x p = Some r" "index_valid p" "\<not> clears_queue x"
  shows "index_valid (final_player r)"
proof (cases x)
  case (Load vs clear ign)
  with assms load_grows [of vs clear ign p] show ?thesis by (auto simp: index_valid_def)
next
  case ClearQueue
  with assms show ?thesis by simp
next
  case Unload
  with assms show ?thesis by simp
next
  case PlayOp
  with assms play_keeps [of p r] show ?thesis by (simp add: keeps_index_def)
next
  case StopOp
  with assms stop_keeps [of p r] show ?thesis by (simp add: keeps_index_def)
next
  case (SkipToNext a b c)
  with assms skip_to_next_keeps [of a b c p r] show ?thesis by (simp add: keeps_index_def)
next
  case (SkipToPrevious a b c)
  with assms skip_to_previous_keeps [of a b c p r] show ?thesis by (simp add: keeps_index_def)
next
  case (SetVolume v)
  with assms set_volume_place [of p v] show ?thesis by (auto simp: same_place_def index_valid_def)
next
  case (TrackEnded h)
  with assms sound_stop_keeps [of h p r] show ?thesis by (simp add: keeps_index_def)
qed

lemma perform_all_floor:
  assumes "perform_all xs p = Some q" "- 1 \<le> queue_progress_index p"
  shows "- 1 \<le> queue_progress_index q"
  using assms
proof (induction xs arbitrary: p)
  case Nil
  then show ?case by simp
next
  case (Cons x xs)
  then obtain r where r: "perform x p = Some r" "perform_all xs (final_player r) = Some q"
    by (auto split: option.splits)
  from perform_floor [OF r(1) Cons.prems(2)] Cons.IH [OF r(2)] show ?case by simp
qed

lemma perform_all_index_valid:
  assumes "perform_all xs p = Some q" "index_valid p" "\<forall>x \<in> set xs. \<not> clears_queue x"
  shows "index_valid q"
  using assms
proof (induction xs arbitrary: p)
  case Nil
  then show ?case by simp
next
  case (Cons x xs)
  then obtain r where r: "perform x p = Some r" "perform_all xs (final_player r) = Some q"
    by (auto split: option.splits)
  from Cons.prems have "\<not> clears_queue x" "\<forall>x \<in> set xs. \<not> clears_queue x" by simp_all
  from perform_index_valid [OF r(1) Cons.prems(2) this(1)] Cons.IH [OF r(2) _ this(2)]
  show ?case by simp
qed


end
